theory Spec2Isabelle
  imports Main "HOL-Library.Word"
begin

section \<open>The message batching manager of amqp-cacoon\<close>

text \<open>
  This theory embeds \<^verbatim>\<open>src/helpers/message_batching_manager.ts\<close>: the class
  \<^verbatim>\<open>MessageBatchingManager\<close> with its buffer, its flush timer and its flush
  procedure, and proves properties of its batching and acknowledgment behaviour.

  Conventions of the embedding.
  \<^item> A JavaScript array is an object on a heap: a variable holds its address, \<^verbatim>\<open>push\<close>
    changes the heap at that address and \<^verbatim>\<open>[]\<close> allocates a fresh address. The closures
    of a batch keep the address of the array they captured.
  \<^item> Byte counts are integers (\<^typ>\<open>int\<close>); a JavaScript number holds them exactly below
    \<open>2 ^ 53\<close>. An optional number is an \<^typ>\<open>int option\<close>, and it is truthy when it is
    present and not zero.
  \<^item> The channel's \<^verbatim>\<open>ack\<close> and \<^verbatim>\<open>nack\<close>, the logger's \<^verbatim>\<open>trace\<close> and the calls of the
    handler are recorded, in order and with the arguments they are given, in a trace of
    effects. The channel and the logger are collaborators outside this file, and their
    calls return normally: the file has no \<^verbatim>\<open>throw\<close> of its own, and the only failures it
    handles are those of the handler.
  \<^item> An \<^verbatim>\<open>async\<close> function runs until its first \<^verbatim>\<open>await\<close> of a promise that is not
    settled yet; what is left of it is kept as a task in flight, which a later turn of the
    event loop resumes. A turn is one call of \<^verbatim>\<open>handleMessageBuffering\<close>, one timer
    callback or one resumption of a handler, together with the continuations that become
    ready within it. Turns run to completion, one after the other, in any order; time is
    not measured, a pending timer may fire at any turn.
  \<^item> The handler is a parameter. It is given the channel and the batch, not the manager:
    it may call \<^verbatim>\<open>ackAll\<close> and \<^verbatim>\<open>nackAll\<close> of the batch and \<^verbatim>\<open>ack\<close> and \<^verbatim>\<open>nack\<close> of the
    channel, and what it does is a script of such calls and suspensions that ends by
    resolving or by failing. It does not call \<^verbatim>\<open>handleMessageBuffering\<close> itself and does
    not change the array of its batch.
\<close>

subsection \<open>Messages, configuration, batches\<close>

type_synonym byte = "8 word"
type_synonym addr = nat
type_synonym ChannelWrapper = nat

text \<open>
  Modelled from the spec: the type \<^verbatim>\<open>ConsumeMessage\<close> is imported from \<^verbatim>\<open>../index\<close>, which
  is not among the sources. A message carries a byte payload (\<^verbatim>\<open>content\<close>, a Buffer) and
  an opaque acknowledgment token.
\<close>

record ConsumeMessage =
  content :: "byte list"
  deliveryTag :: nat

definition byteLength :: "byte list \<Rightarrow> int" where
  "byteLength b = int (length b)"

record IMessageBatchingManagerConfig =
  providers_logger :: bool \<comment> \<open>whether \<^verbatim>\<open>providers.logger\<close> is given\<close>
  maxSizeBytes :: "int option"
  maxTimeMs :: "int option"
  skipNackOnFail :: "bool option"

text \<open>JavaScript truthiness of an optional number and of an optional boolean.\<close>

definition truthy_num :: "int option \<Rightarrow> bool" where
  "truthy_num v = (case v of None \<Rightarrow> False | Some n \<Rightarrow> n \<noteq> 0)"

definition truthy_bool :: "bool option \<Rightarrow> bool" where
  "truthy_bool v = (case v of None \<Rightarrow> False | Some b \<Rightarrow> b)"

text \<open>
  Modelled from the spec: the type \<^verbatim>\<open>ConsumeBatchMessages\<close> is imported from \<^verbatim>\<open>../index\<close>;
  its fields are those of the object that \<^verbatim>\<open>sendBufferedMessages\<close> builds. The closures
  \<^verbatim>\<open>ackAll\<close> and \<^verbatim>\<open>nackAll\<close> are represented by what they capture: the channel
  (\<open>bound_channel\<close>) and the array \<^verbatim>\<open>unackedMessageList\<close>, which is the array of the
  field \<^verbatim>\<open>messages\<close>.
\<close>

record ConsumeBatchMessages =
  batchingOptions_maxTimeMs :: "int option"
  batchingOptions_maxSizeBytes :: "int option"
  totalSizeInBytes :: int
  messages :: addr
  bound_channel :: ChannelWrapper

subsection \<open>Handlers\<close>

datatype error = Error string

datatype handle_call =
    AckAll
  | NackAll "bool option"
  | AckMessage ConsumeMessage
  | NackMessage ConsumeMessage "bool option"

text \<open>
  What a handler does once called: \<open>Call c k\<close> calls \<^verbatim>\<open>batch.ackAll()\<close> or
  \<^verbatim>\<open>batch.nackAll(requeue)\<close>, or \<^verbatim>\<open>ack\<close> or \<^verbatim>\<open>nack\<close> of its channel for one message, and
  goes on with \<open>k\<close>; \<open>Await k\<close> suspends until a later turn of the event loop; \<open>Resolve\<close>
  ends normally; \<open>Reject e\<close> is a failure, a \<^verbatim>\<open>throw\<close> or a rejected promise.
\<close>

datatype script = Resolve | Reject error | Call handle_call script | Await script

text \<open>
  A handler chooses its script from the channel, the batch and the messages that the
  array of the batch holds when it is called.
\<close>

type_synonym handler = "ChannelWrapper \<Rightarrow> ConsumeBatchMessages \<Rightarrow> ConsumeMessage list \<Rightarrow> script"

subsection \<open>State\<close>

datatype settled = Fulfilled | Rejected error

datatype effect =
    ChannelAck ChannelWrapper ConsumeMessage
  | ChannelNack ChannelWrapper ConsumeMessage "bool option"
  | LoggerTrace string
  | HandlerCalled ChannelWrapper ConsumeBatchMessages "ConsumeMessage list"
  | Returned settled \<comment> \<open>the promise of a call of \<^verbatim>\<open>handleMessageBuffering\<close> settles\<close>
  | UnhandledRejection error \<comment> \<open>a promise that nobody holds is rejected\<close>

text \<open>
  Who holds the promise of \<^verbatim>\<open>sendBufferedMessages\<close>: \<^verbatim>\<open>handleMessageBuffering\<close> awaits
  it, the timer callback drops it.
\<close>

datatype continuation = AwaitedByHandleMessageBuffering | NotAwaited

text \<open>A suspended \<^verbatim>\<open>sendBufferedMessages\<close>, waiting for the promise of its handler.\<close>

record task =
  task_id :: nat
  task_batch :: ConsumeBatchMessages
  task_script :: script
  task_cont :: continuation

text \<open>A pending timeout; its callback has captured the handler.\<close>

record timer =
  timer_id :: nat
  timer_delay :: int
  timer_handler :: handler

record state =
  \<comment> \<open>the fields of \<^verbatim>\<open>MessageBatchingManager\<close>\<close>
  config :: IMessageBatchingManagerConfig
  unackedMessageList :: addr
  bufferSize :: int
  timerHandle :: "nat option"
  amqpChannel :: "ChannelWrapper option"
  logger :: bool
  \<comment> \<open>the runtime: arrays, timeouts, suspended calls, and the effects so far\<close>
  heap :: "addr \<Rightarrow> ConsumeMessage list"
  nextAddr :: addr
  timers :: "timer list"
  nextTimer :: nat
  inflight :: "task list"
  nextTask :: nat
  trace :: "effect list"

definition emit :: "effect \<Rightarrow> state \<Rightarrow> state" where
  "emit e s = s\<lparr>trace := trace s @ [e]\<rparr>"

text \<open>The array literal \<^verbatim>\<open>[]\<close>: a new, empty array.\<close>

definition new_array :: "state \<Rightarrow> addr \<times> state" where
  "new_array s = (nextAddr s, s\<lparr>heap := (heap s)(nextAddr s := []), nextAddr := Suc (nextAddr s)\<rparr>)"

subsection \<open>The buffer\<close>

definition getMessageCount :: "state \<Rightarrow> nat" where
  "getMessageCount s = length (heap s (unackedMessageList s))"

definition getBufferSize :: "state \<Rightarrow> int" where
  "getBufferSize s = bufferSize s"

definition resetMessages :: "state \<Rightarrow> state" where
  "resetMessages s =
     (let (a, s1) = new_array s;
          s2 = s1\<lparr>unackedMessageList := a\<rparr>
      in s2\<lparr>bufferSize := 0\<rparr>)"

definition addMessage :: "ConsumeMessage \<Rightarrow> state \<Rightarrow> state" where
  "addMessage msg s =
     (let s1 = s\<lparr>heap := (heap s)(unackedMessageList s := heap s (unackedMessageList s) @ [msg])\<rparr>
      in s1\<lparr>bufferSize := bufferSize s1 + byteLength (content msg)\<rparr>)"

text \<open>The result is the pair \<^verbatim>\<open>{bufferSize, unackedMessageList}\<close>.\<close>

definition finalizeMessages :: "state \<Rightarrow> (int \<times> addr) \<times> state" where
  "finalizeMessages s =
     (let unacked = unackedMessageList s;
          size = bufferSize s;
          s1 = resetMessages s
      in ((size, unacked), s1))"

text \<open>
  The constructor: the field initialisers (\<^verbatim>\<open>unackedMessageList = []\<close>,
  \<^verbatim>\<open>bufferSize = 1\<close>), then the logger, then \<^verbatim>\<open>resetMessages\<close>.
\<close>

definition new_MessageBatchingManager :: "IMessageBatchingManagerConfig \<Rightarrow> state" where
  "new_MessageBatchingManager cfg =
     (let s0 = \<lparr>config = cfg, unackedMessageList = 0, bufferSize = 1, timerHandle = None,
                amqpChannel = None, logger = False,
                heap = (\<lambda>_. []), nextAddr = 1, timers = [], nextTimer = 0,
                inflight = [], nextTask = 0, trace = []\<rparr>;
          s1 = s0\<lparr>logger := providers_logger cfg\<rparr>
      in resetMessages s1)"

subsection \<open>Acknowledging a list\<close>

definition logger_trace :: "string \<Rightarrow> state \<Rightarrow> state" where
  "logger_trace txt s = (if logger s then emit (LoggerTrace txt) s else s)"

fun ack_each :: "ChannelWrapper \<Rightarrow> ConsumeMessage list \<Rightarrow> state \<Rightarrow> state" where
  "ack_each channel [] s = s"
| "ack_each channel (msg # rest) s = ack_each channel rest (emit (ChannelAck channel msg) s)"

fun nack_each :: "ChannelWrapper \<Rightarrow> ConsumeMessage list \<Rightarrow> bool option \<Rightarrow> state \<Rightarrow> state" where
  "nack_each channel [] requeue s = s"
| "nack_each channel (msg # rest) requeue s =
     nack_each channel rest requeue (emit (ChannelNack channel msg requeue) s)"

definition ackMessageList :: "ChannelWrapper \<Rightarrow> addr \<Rightarrow> state \<Rightarrow> state" where
  "ackMessageList channel messageList s =
     (let s1 = logger_trace ''MessageBatchingManager.ackMessageList: Start'' s;
          s2 = ack_each channel (heap s1 messageList) s1
      in logger_trace ''MessageBatchingManager.ackMessageList: End'' s2)"

definition nackMessageList :: "ChannelWrapper \<Rightarrow> addr \<Rightarrow> bool option \<Rightarrow> state \<Rightarrow> state" where
  "nackMessageList channel messageList requeue s =
     (let s1 = logger_trace ''MessageBatchingManager.nackMessageList: Start'' s;
          s2 = nack_each channel (heap s1 messageList) requeue s1
      in logger_trace ''MessageBatchingManager.nackMessageList: End'' s2)"

text \<open>The two closures of a batch.\<close>

definition ackAll :: "ConsumeBatchMessages \<Rightarrow> state \<Rightarrow> state" where
  "ackAll b s = ackMessageList (bound_channel b) (messages b) s"

definition nackAll :: "ConsumeBatchMessages \<Rightarrow> bool option \<Rightarrow> state \<Rightarrow> state" where
  "nackAll b requeue s = nackMessageList (bound_channel b) (messages b) requeue s"

subsection \<open>The flush\<close>

text \<open>
  The handler runs until it suspends (\<open>Inr\<close>, with what is left of it) or settles
  (\<open>Inl\<close>).
\<close>

fun run_script :: "ConsumeBatchMessages \<Rightarrow> script \<Rightarrow> state \<Rightarrow> (settled + script) \<times> state" where
  "run_script b Resolve s = (Inl Fulfilled, s)"
| "run_script b (Reject e) s = (Inl (Rejected e), s)"
| "run_script b (Call AckAll k) s = run_script b k (ackAll b s)"
| "run_script b (Call (NackAll requeue) k) s = run_script b k (nackAll b requeue s)"
| "run_script b (Call (AckMessage msg) k) s =
     run_script b k (emit (ChannelAck (bound_channel b) msg) s)"
| "run_script b (Call (NackMessage msg requeue) k) s =
     run_script b k (emit (ChannelNack (bound_channel b) msg requeue) s)"
| "run_script b (Await k) s = (Inr k, s)"

text \<open>
  The rest of \<^verbatim>\<open>sendBufferedMessages\<close> once the promise of the handler has settled: the
  end of the \<^verbatim>\<open>try\<close> block, or the \<^verbatim>\<open>catch\<close> block. The result is how the promise of
  \<^verbatim>\<open>sendBufferedMessages\<close> settles.
\<close>

definition handler_settled :: "ConsumeBatchMessages \<Rightarrow> settled \<Rightarrow> state \<Rightarrow> settled \<times> state" where
  "handler_settled b r s =
     (case r of
        Fulfilled \<Rightarrow> (Fulfilled, s)
      | Rejected e \<Rightarrow>
          (if \<not> truthy_bool (skipNackOnFail (config s)) \<and> length (heap s (messages b)) > 0
           then (Fulfilled, nackMessageList (bound_channel b) (messages b) None s)
           else (Fulfilled, s)))"

text \<open>
  The caller of \<^verbatim>\<open>sendBufferedMessages\<close> once its promise has settled:
  \<^verbatim>\<open>handleMessageBuffering\<close> awaits it as its last statement, so its own promise settles
  the same way; the timer callback has dropped the promise.
\<close>

definition continue :: "continuation \<Rightarrow> settled \<Rightarrow> state \<Rightarrow> state" where
  "continue k r s =
     (case k of
        AwaitedByHandleMessageBuffering \<Rightarrow> emit (Returned r) s
      | NotAwaited \<Rightarrow> (case r of Fulfilled \<Rightarrow> s | Rejected e \<Rightarrow> emit (UnhandledRejection e) s))"

text \<open>
  \<^verbatim>\<open>await handler(...)\<close>, from the call of the handler or from a resumption: run the handler
  as far as it goes; if it settles, finish \<^verbatim>\<open>sendBufferedMessages\<close> and return to its
  caller, and if it suspends, keep the task under the number \<open>i\<close> of this flush.
\<close>

definition await_handler :: "nat \<Rightarrow> ConsumeBatchMessages \<Rightarrow> continuation \<Rightarrow> script \<Rightarrow> state \<Rightarrow> state" where
  "await_handler i b k scr s =
     (case run_script b scr s of
        (Inl r, s1) \<Rightarrow> (let (r', s2) = handler_settled b r s1 in continue k r' s2)
      | (Inr rest, s1) \<Rightarrow>
          s1\<lparr>inflight := inflight s1 @
                 [\<lparr>task_id = i, task_batch = b, task_script = rest, task_cont = k\<rparr>]\<rparr>)"

text \<open>
  \<^verbatim>\<open>sendBufferedMessages\<close>, up to the point where its handler settles or suspends. Each
  flush takes a number, which names its task while the handler is suspended. The first
  array is the initial value of the local \<^verbatim>\<open>unackedMessageList\<close>, which the result of
  \<^verbatim>\<open>finalizeMessages\<close> replaces at once. The argument \<open>k\<close> says who called.
\<close>

definition sendBufferedMessages :: "ChannelWrapper \<Rightarrow> handler \<Rightarrow> continuation \<Rightarrow> state \<Rightarrow> state" where
  "sendBufferedMessages channel handler k s =
     (let i = nextTask s;
          s' = s\<lparr>nextTask := Suc i\<rparr>;
          (unacked0, s0) = new_array s';
          ((size, unacked), s1) = finalizeMessages s0;
          batch = \<lparr>batchingOptions_maxTimeMs = maxTimeMs (config s1),
                   batchingOptions_maxSizeBytes = maxSizeBytes (config s1),
                   totalSizeInBytes = size,
                   messages = unacked,
                   bound_channel = channel\<rparr>;
          s2 = emit (HandlerCalled channel batch (heap s1 unacked)) s1
      in await_handler i batch k (handler channel batch (heap s1 unacked)) s2)"

subsection \<open>Timers\<close>

definition setTimeout :: "handler \<Rightarrow> int \<Rightarrow> state \<Rightarrow> nat \<times> state" where
  "setTimeout handler ms s =
     (nextTimer s,
      s\<lparr>timers := timers s @ [\<lparr>timer_id = nextTimer s, timer_delay = ms, timer_handler = handler\<rparr>],
        nextTimer := Suc (nextTimer s)\<rparr>)"

definition clearTimeout :: "nat \<Rightarrow> state \<Rightarrow> state" where
  "clearTimeout t s = s\<lparr>timers := filter (\<lambda>x. timer_id x \<noteq> t) (timers s)\<rparr>"

text \<open>
  The callback given to \<^verbatim>\<open>setTimeout\<close>. The channel is read from the field when the timer
  fires (\<^verbatim>\<open>this.amqpChannel!\<close>); the field is set by every call of
  \<^verbatim>\<open>handleMessageBuffering\<close>, before any timer is armed, so that the field is defined
  whenever a timer fires (lemma \<open>timer_fires\<close> below).
\<close>

definition timer_callback :: "handler \<Rightarrow> state \<Rightarrow> state" where
  "timer_callback handler s =
     (let s1 = (case amqpChannel s of
                  Some channel \<Rightarrow> sendBufferedMessages channel handler NotAwaited s
                | None \<Rightarrow> s)
      in s1\<lparr>timerHandle := None\<rparr>)"

subsection \<open>Buffering\<close>

text \<open>
  The condition \<^verbatim>\<open>this.config.maxSizeBytes && this.bufferSize >= this.config.maxSizeBytes\<close>,
  and \<^verbatim>\<open>handleMessageBuffering\<close>. The flush is given the field \<^verbatim>\<open>this.amqpChannel\<close>, which
  the first statement has set. A call that does not flush returns at once.
\<close>

definition size_reached :: "state \<Rightarrow> bool" where
  "size_reached s =
     (case maxSizeBytes (config s) of
        None \<Rightarrow> False
      | Some n \<Rightarrow> n \<noteq> 0 \<and> bufferSize s \<ge> n)"

definition handleMessageBuffering :: "ChannelWrapper \<Rightarrow> ConsumeMessage \<Rightarrow> handler \<Rightarrow> state \<Rightarrow> state" where
  "handleMessageBuffering channel msg handler s =
     (let s1 = s\<lparr>amqpChannel := Some channel\<rparr>;
          s2 = addMessage msg s1
      in if size_reached s2 then
           (let s3 = (case timerHandle s2 of
                        Some t \<Rightarrow> (clearTimeout t s2)\<lparr>timerHandle := None\<rparr>
                      | None \<Rightarrow> s2)
            in case amqpChannel s3 of
                 Some ch \<Rightarrow> sendBufferedMessages ch handler AwaitedByHandleMessageBuffering s3
               | None \<Rightarrow> s3)
         else (case maxTimeMs (config s2) of
                 Some ms \<Rightarrow>
                   (if ms \<noteq> 0 then
                      (if timerHandle s2 = None then
                         (let (t, s3) = setTimeout handler ms s2
                          in emit (Returned Fulfilled) (s3\<lparr>timerHandle := Some t\<rparr>))
                       else emit (Returned Fulfilled) s2)
                    else emit (Returned Fulfilled) s2)
               | None \<Rightarrow> emit (Returned Fulfilled) s2))"

subsection \<open>The event loop\<close>

text \<open>
  One turn: a message is delivered, a pending timer fires, or the handler of a task in
  flight goes on. A turn for a timer that is not pending or a task that is not in flight
  does not happen, and leaves the state as it is.
\<close>

datatype event =
    Message ChannelWrapper ConsumeMessage handler
  | TimerFires nat
  | HandlerResumes nat

definition step :: "event \<Rightarrow> state \<Rightarrow> state" where
  "step ev s =
     (case ev of
        Message channel msg handler \<Rightarrow> handleMessageBuffering channel msg handler s
      | TimerFires t \<Rightarrow>
          (case find (\<lambda>x. timer_id x = t) (timers s) of
             None \<Rightarrow> s
           | Some tm \<Rightarrow> timer_callback (timer_handler tm) (clearTimeout t s))
      | HandlerResumes i \<Rightarrow>
          (case find (\<lambda>x. task_id x = i) (inflight s) of
             None \<Rightarrow> s
           | Some tk \<Rightarrow>
               await_handler i (task_batch tk) (task_cont tk) (task_script tk)
                 (s\<lparr>inflight := filter (\<lambda>x. task_id x \<noteq> i) (inflight s)\<rparr>)))"

fun run :: "event list \<Rightarrow> state \<Rightarrow> state" where
  "run [] s = s"
| "run (ev # evs) s = run evs (step ev s)"

section \<open>Vocabulary of the properties\<close>

text \<open>The messages now in the buffer, and the byte length of a list of messages.\<close>

definition buffered :: "state \<Rightarrow> ConsumeMessage list" where
  "buffered s = heap s (unackedMessageList s)"

definition total_bytes :: "ConsumeMessage list \<Rightarrow> int" where
  "total_bytes ms = sum_list (map (\<lambda>m. byteLength (content m)) ms)"

text \<open>Readings of a trace: the calls of the handler, and the batches they were given.\<close>

fun handler_calls :: "effect list \<Rightarrow> (ChannelWrapper \<times> ConsumeBatchMessages \<times> ConsumeMessage list) list" where
  "handler_calls [] = []"
| "handler_calls (HandlerCalled c b ms # es) = (c, b, ms) # handler_calls es"
| "handler_calls (e # es) = handler_calls es"

definition batches :: "effect list \<Rightarrow> ConsumeMessage list list" where
  "batches es = map (\<lambda>(c, b, ms). ms) (handler_calls es)"

text \<open>The messages that a list of events delivers, and the number of calls it makes.\<close>

fun arrivals :: "event list \<Rightarrow> ConsumeMessage list" where
  "arrivals [] = []"
| "arrivals (Message c m h # evs) = m # arrivals evs"
| "arrivals (ev # evs) = arrivals evs"

text \<open>A sequence of calls of \<^verbatim>\<open>handleMessageBuffering\<close>, as events.\<close>

type_synonym call = "ChannelWrapper \<times> ConsumeMessage \<times> handler"

definition call_event :: "call \<Rightarrow> event" where
  "call_event cl = (case cl of (c, m, h) \<Rightarrow> Message c m h)"

definition call_message :: "call \<Rightarrow> ConsumeMessage" where
  "call_message cl = (case cl of (c, m, h) \<Rightarrow> m)"

text \<open>The effects of the operations, as lists.\<close>

definition append_trace :: "effect list \<Rightarrow> state \<Rightarrow> state" where
  "append_trace es s = s\<lparr>trace := trace s @ es\<rparr>"

definition log_effects :: "bool \<Rightarrow> string \<Rightarrow> effect list" where
  "log_effects lg txt = (if lg then [LoggerTrace txt] else [])"

definition ack_effects :: "bool \<Rightarrow> ChannelWrapper \<Rightarrow> ConsumeMessage list \<Rightarrow> effect list" where
  "ack_effects lg channel ms =
     log_effects lg ''MessageBatchingManager.ackMessageList: Start''
     @ map (ChannelAck channel) ms
     @ log_effects lg ''MessageBatchingManager.ackMessageList: End''"

definition nack_effects :: "bool \<Rightarrow> ChannelWrapper \<Rightarrow> ConsumeMessage list \<Rightarrow> bool option \<Rightarrow> effect list" where
  "nack_effects lg channel ms requeue =
     log_effects lg ''MessageBatchingManager.nackMessageList: Start''
     @ map (\<lambda>m. ChannelNack channel m requeue) ms
     @ log_effects lg ''MessageBatchingManager.nackMessageList: End''"

text \<open>
  What the handler itself does in one activation, through the closures of a batch with
  the messages \<open>ms\<close> on the channel \<open>c\<close>, and how the activation ends.
\<close>

fun script_effects :: "bool \<Rightarrow> ChannelWrapper \<Rightarrow> ConsumeMessage list \<Rightarrow> script \<Rightarrow> effect list" where
  "script_effects lg c ms Resolve = []"
| "script_effects lg c ms (Reject e) = []"
| "script_effects lg c ms (Call AckAll k) = ack_effects lg c ms @ script_effects lg c ms k"
| "script_effects lg c ms (Call (NackAll r) k) = nack_effects lg c ms r @ script_effects lg c ms k"
| "script_effects lg c ms (Call (AckMessage m) k) = ChannelAck c m # script_effects lg c ms k"
| "script_effects lg c ms (Call (NackMessage m r) k) = ChannelNack c m r # script_effects lg c ms k"
| "script_effects lg c ms (Await k) = []"

fun script_outcome :: "script \<Rightarrow> settled + script" where
  "script_outcome Resolve = Inl Fulfilled"
| "script_outcome (Reject e) = Inl (Rejected e)"
| "script_outcome (Call c k) = script_outcome k"
| "script_outcome (Await k) = Inr k"

definition catch_effects ::
  "IMessageBatchingManagerConfig \<Rightarrow> bool \<Rightarrow> ChannelWrapper \<Rightarrow> ConsumeMessage list \<Rightarrow> settled \<Rightarrow> effect list" where
  "catch_effects cfg lg c ms r =
     (case r of
        Fulfilled \<Rightarrow> []
      | Rejected e \<Rightarrow>
          (if \<not> truthy_bool (skipNackOnFail cfg) \<and> ms \<noteq> []
           then nack_effects lg c ms None
           else []))"

definition return_effects :: "continuation \<Rightarrow> effect list" where
  "return_effects k =
     (case k of AwaitedByHandleMessageBuffering \<Rightarrow> [Returned Fulfilled] | NotAwaited \<Rightarrow> [])"

text \<open>
  All the effects of one activation of a handler: its own calls, then, if it has settled,
  the \<^verbatim>\<open>catch\<close> block and the return to the caller.
\<close>

definition activation_effects ::
  "IMessageBatchingManagerConfig \<Rightarrow> bool \<Rightarrow> ChannelWrapper \<Rightarrow> ConsumeMessage list \<Rightarrow> continuation
   \<Rightarrow> script \<Rightarrow> effect list" where
  "activation_effects cfg lg c ms k scr =
     script_effects lg c ms scr
     @ (case script_outcome scr of
          Inl r \<Rightarrow> catch_effects cfg lg c ms r @ return_effects k
        | Inr rest \<Rightarrow> [])"

definition activation_tasks :: "nat \<Rightarrow> ConsumeBatchMessages \<Rightarrow> continuation \<Rightarrow> script \<Rightarrow> task list" where
  "activation_tasks i b k scr =
     (case script_outcome scr of
        Inl r \<Rightarrow> []
      | Inr rest \<Rightarrow> [\<lparr>task_id = i, task_batch = b, task_script = rest, task_cont = k\<rparr>])"

text \<open>The batch that a flush on the channel \<open>channel\<close> builds in the state \<open>s\<close>.\<close>

definition flush_batch :: "ChannelWrapper \<Rightarrow> state \<Rightarrow> ConsumeBatchMessages" where
  "flush_batch channel s =
     \<lparr>batchingOptions_maxTimeMs = maxTimeMs (config s),
      batchingOptions_maxSizeBytes = maxSizeBytes (config s),
      totalSizeInBytes = bufferSize s,
      messages = unackedMessageList s,
      bound_channel = channel\<rparr>"

text \<open>The state of a flush when it calls the handler.\<close>

definition detached :: "state \<Rightarrow> state" where
  "detached s =
     s\<lparr>nextTask := Suc (nextTask s),
       heap := (heap s)(nextAddr s := [], Suc (nextAddr s) := []),
       nextAddr := Suc (Suc (nextAddr s)),
       unackedMessageList := Suc (nextAddr s),
       bufferSize := 0\<rparr>"

text \<open>All the effects of a flush, within the turn that starts it.\<close>

definition flush_effects :: "ChannelWrapper \<Rightarrow> handler \<Rightarrow> continuation \<Rightarrow> state \<Rightarrow> effect list" where
  "flush_effects c h k s =
     HandlerCalled c (flush_batch c s) (buffered s)
     # activation_effects (config s) (logger s) c (buffered s) k (h c (flush_batch c s) (buffered s))"

text \<open>
  The states that the manager can be in between two turns: the array of the buffer is
  allocated, the byte total is that of the buffer, the pending timers are the one of
  \<^verbatim>\<open>timerHandle\<close> if there is one, a timer is armed only over a buffer that is not empty,
  and the numbers of the tasks in flight are distinct, given by flushes of the past.
\<close>

definition wellformed :: "state \<Rightarrow> bool" where
  "wellformed s \<longleftrightarrow>
     unackedMessageList s < nextAddr s
     \<and> bufferSize s = total_bytes (buffered s)
     \<and> map timer_id (timers s) = (case timerHandle s of None \<Rightarrow> [] | Some t \<Rightarrow> [t])
     \<and> (timerHandle s \<noteq> None \<longrightarrow> buffered s \<noteq> [] \<and> amqpChannel s \<noteq> None)
     \<and> distinct (map task_id (inflight s))
     \<and> (\<forall>t \<in> set (inflight s). task_id t < nextTask s)"

text \<open>
  Whether the byte total stays below the size threshold once the message \<open>m\<close> is added, so
  that the call of \<^verbatim>\<open>handleMessageBuffering\<close> does not flush.
\<close>

definition below :: "ConsumeMessage \<Rightarrow> state \<Rightarrow> bool" where
  "below m s \<longleftrightarrow>
     (case maxSizeBytes (config s) of
        None \<Rightarrow> True
      | Some n \<Rightarrow> n = 0 \<or> bufferSize s + byteLength (content m) < n)"

text \<open>The state after \<^verbatim>\<open>clearTimeout\<close> on the size path.\<close>

definition disarmed :: "state \<Rightarrow> state" where
  "disarmed s =
     (case timerHandle s of
        Some t \<Rightarrow> (clearTimeout t s)\<lparr>timerHandle := None\<rparr>
      | None \<Rightarrow> s)"

text \<open>The batch of a flush that the message \<open>m\<close> triggers in the state \<open>s\<close>.\<close>

definition triggered_batch :: "ChannelWrapper \<Rightarrow> ConsumeMessage \<Rightarrow> state \<Rightarrow> ConsumeBatchMessages" where
  "triggered_batch c m s =
     \<lparr>batchingOptions_maxTimeMs = maxTimeMs (config s),
      batchingOptions_maxSizeBytes = maxSizeBytes (config s),
      totalSizeInBytes = bufferSize s + byteLength (content m),
      messages = unackedMessageList s,
      bound_channel = c\<rparr>"

text \<open>The effects of one turn, and of a list of turns.\<close>

definition step_effects :: "event \<Rightarrow> state \<Rightarrow> effect list" where
  "step_effects ev s =
     (case ev of
        Message c m h \<Rightarrow>
          (if below m s then [Returned Fulfilled]
           else HandlerCalled c (triggered_batch c m s) (buffered s @ [m])
                # activation_effects (config s) (logger s) c (buffered s @ [m])
                    AwaitedByHandleMessageBuffering (h c (triggered_batch c m s) (buffered s @ [m])))
      | TimerFires t \<Rightarrow>
          (case find (\<lambda>x. timer_id x = t) (timers s) of
             None \<Rightarrow> []
           | Some tm \<Rightarrow>
               (case amqpChannel s of
                  None \<Rightarrow> []
                | Some c \<Rightarrow> flush_effects c (timer_handler tm) NotAwaited s))
      | HandlerResumes i \<Rightarrow>
          (case find (\<lambda>x. task_id x = i) (inflight s) of
             None \<Rightarrow> []
           | Some tk \<Rightarrow>
               activation_effects (config s) (logger s) (bound_channel (task_batch tk))
                 (heap s (messages (task_batch tk))) (task_cont tk) (task_script tk)))"

fun run_effects :: "event list \<Rightarrow> state \<Rightarrow> effect list" where
  "run_effects [] s = []"
| "run_effects (ev # evs) s = step_effects ev s @ run_effects evs (step ev s)"

text \<open>
  Every batch that a handler was given is bound to the channel of its flush, is not empty,
  lies in an array that is no longer the array of the buffer and still holds the messages
  it held when the handler was called; and the batch of every task in flight was given to
  a handler.
\<close>

definition kept :: "state \<Rightarrow> bool" where
  "kept s \<longleftrightarrow>
     (\<forall>x \<in> set (handler_calls (trace s)).
        case x of (c, b, ms) \<Rightarrow>
          bound_channel b = c \<and> ms \<noteq> [] \<and> messages b < nextAddr s
          \<and> messages b \<noteq> unackedMessageList s \<and> heap s (messages b) = ms)
     \<and> (\<forall>tk \<in> set (inflight s).
          (bound_channel (task_batch tk), task_batch tk, heap s (messages (task_batch tk)))
            \<in> set (handler_calls (trace s)))"

text \<open>
  More readings of a trace: how the promises of the calls of \<^verbatim>\<open>handleMessageBuffering\<close>
  settled, and the rejections that nobody handled. \<open>awaiting\<close> counts the calls that still
  wait for their handler.
\<close>

fun returns :: "effect list \<Rightarrow> settled list" where
  "returns [] = []"
| "returns (Returned r # es) = r # returns es"
| "returns (e # es) = returns es"

fun unhandled :: "effect list \<Rightarrow> error list" where
  "unhandled [] = []"
| "unhandled (UnhandledRejection e # es) = e # unhandled es"
| "unhandled (e # es) = unhandled es"

definition awaiting :: "state \<Rightarrow> nat" where
  "awaiting s = length (filter (\<lambda>tk. task_cont tk = AwaitedByHandleMessageBuffering) (inflight s))"

text \<open>A timer is pending only if a time threshold is configured.\<close>

definition timed :: "state \<Rightarrow> bool" where
  "timed s \<longleftrightarrow> (timers s = [] \<or> truthy_num (maxTimeMs (config s)))"

text \<open>Concrete inputs for the examples.\<close>

definition example_config :: IMessageBatchingManagerConfig where
  "example_config = \<lparr>providers_logger = False, maxSizeBytes = Some 10, maxTimeMs = None,
     skipNackOnFail = None\<rparr>"

definition example_message :: "nat \<Rightarrow> ConsumeMessage" where
  "example_message n = \<lparr>content = [1, 2, 3, 4], deliveryTag = n\<rparr>"

definition acking_handler :: handler where
  "acking_handler c b ms = Call AckAll Resolve"

definition example_calls :: "call list" where
  "example_calls = [(5, example_message 1, acking_handler), (5, example_message 2, acking_handler),
     (5, example_message 3, acking_handler)]"

text \<open>
  A manager with a size threshold of 10 bytes and a time threshold of 50 ms; a handler
  that fails at once and one that suspends and fails later; a message of 8 bytes. In
  \<open>example_state\<close>, three messages of 4 bytes have been flushed on the size threshold, the
  handler of that flush is suspended, and a fourth message has started a new cycle and
  armed a timer.
\<close>

definition timed_config :: IMessageBatchingManagerConfig where
  "timed_config = \<lparr>providers_logger = False, maxSizeBytes = Some 10, maxTimeMs = Some 50,
     skipNackOnFail = None\<rparr>"

definition skipping_config :: IMessageBatchingManagerConfig where
  "skipping_config = \<lparr>providers_logger = False, maxSizeBytes = Some 10, maxTimeMs = Some 50,
     skipNackOnFail = Some True\<rparr>"

definition failing_handler :: handler where
  "failing_handler c b ms = Reject (Error ''boom'')"

definition late_handler :: handler where
  "late_handler c b ms = Await (Reject (Error ''late''))"

definition large_message :: ConsumeMessage where
  "large_message = \<lparr>content = [1, 2, 3, 4, 5, 6, 7, 8], deliveryTag = 9\<rparr>"

definition example_events :: "event list" where
  "example_events =
     [Message 5 (example_message 1) late_handler, Message 5 (example_message 2) late_handler,
      Message 5 (example_message 3) late_handler, Message 5 (example_message 4) failing_handler]"

definition example_state :: "IMessageBatchingManagerConfig \<Rightarrow> state" where
  "example_state cfg = run example_events (new_MessageBatchingManager cfg)"

definition armed_state :: state where
  "armed_state = run [Message 5 (example_message 1) late_handler] (new_MessageBatchingManager timed_config)"

definition first_batch :: ConsumeBatchMessages where
  "first_batch = \<lparr>batchingOptions_maxTimeMs = Some 50, batchingOptions_maxSizeBytes = Some 10,
     totalSizeInBytes = 12, messages = 1, bound_channel = 5\<rparr>"


section \<open>Properties\<close>

subsection \<open>Effects as lists\<close>

lemma append_trace_simps [simp]:
  "config (append_trace es s) = config s"
  "unackedMessageList (append_trace es s) = unackedMessageList s"
  "bufferSize (append_trace es s) = bufferSize s"
  "timerHandle (append_trace es s) = timerHandle s"
  "amqpChannel (append_trace es s) = amqpChannel s"
  "logger (append_trace es s) = logger s"
  "heap (append_trace es s) = heap s"
  "nextAddr (append_trace es s) = nextAddr s"
  "timers (append_trace es s) = timers s"
  "nextTimer (append_trace es s) = nextTimer s"
  "inflight (append_trace es s) = inflight s"
  "nextTask (append_trace es s) = nextTask s"
  "trace (append_trace es s) = trace s @ es"
  by (simp_all add: append_trace_def)

lemma append_trace_twice [simp]: "append_trace es (append_trace es' s) = append_trace (es' @ es) s"
  by (simp add: append_trace_def)

lemma append_trace_Nil [simp]: "append_trace [] s = s"
  by (simp add: append_trace_def)

lemma emit_append_trace: "emit e s = append_trace [e] s"
  by (simp add: emit_def append_trace_def)

lemma logger_trace_append_trace: "logger_trace txt s = append_trace (log_effects (logger s) txt) s"
  by (simp add: logger_trace_def log_effects_def emit_append_trace)

lemma ack_each_append_trace: "ack_each c ms s = append_trace (map (ChannelAck c) ms) s"
  by (induction ms arbitrary: s) (simp_all add: emit_append_trace)

lemma nack_each_append_trace: "nack_each c ms r s = append_trace (map (\<lambda>m. ChannelNack c m r) ms) s"
  by (induction ms arbitrary: s) (simp_all add: emit_append_trace)

lemma ackMessageList_append_trace:
  "ackMessageList c a s = append_trace (ack_effects (logger s) c (heap s a)) s"
  by (simp add: ackMessageList_def logger_trace_append_trace ack_each_append_trace
      ack_effects_def Let_def)

lemma nackMessageList_append_trace:
  "nackMessageList c a r s = append_trace (nack_effects (logger s) c (heap s a) r) s"
  by (simp add: nackMessageList_def logger_trace_append_trace nack_each_append_trace
      nack_effects_def Let_def)

lemma run_script_append_trace:
  "run_script b scr s =
     (script_outcome scr,
      append_trace (script_effects (logger s) (bound_channel b) (heap s (messages b)) scr) s)"
  by (induction b scr s rule: run_script.induct)
     (simp_all add: ackAll_def nackAll_def ackMessageList_append_trace nackMessageList_append_trace
       emit_append_trace)

lemma handler_settled_eq:
  "handler_settled b r s =
     (Fulfilled,
      append_trace (catch_effects (config s) (logger s) (bound_channel b) (heap s (messages b)) r) s)"
  by (cases r) (simp_all add: handler_settled_def catch_effects_def nackMessageList_append_trace)

lemma continue_eq: "continue k Fulfilled s = append_trace (return_effects k) s"
  by (cases k) (simp_all add: continue_def return_effects_def emit_append_trace)

subsection \<open>The fields after a flush\<close>

lemma await_handler_eq:
  "await_handler i b k scr s =
     (let s1 = append_trace (script_effects (logger s) (bound_channel b) (heap s (messages b)) scr) s
      in case script_outcome scr of
           Inl r \<Rightarrow> (let (r', s2) = handler_settled b r s1 in continue k r' s2)
         | Inr rest \<Rightarrow>
             s1\<lparr>inflight := inflight s1 @
                 [\<lparr>task_id = i, task_batch = b, task_script = rest, task_cont = k\<rparr>]\<rparr>)"
  by (simp add: await_handler_def run_script_append_trace Let_def)

lemma await_handler_fields [simp]:
  "config (await_handler i b k scr s) = config s"
  "unackedMessageList (await_handler i b k scr s) = unackedMessageList s"
  "bufferSize (await_handler i b k scr s) = bufferSize s"
  "timerHandle (await_handler i b k scr s) = timerHandle s"
  "amqpChannel (await_handler i b k scr s) = amqpChannel s"
  "logger (await_handler i b k scr s) = logger s"
  "heap (await_handler i b k scr s) = heap s"
  "nextAddr (await_handler i b k scr s) = nextAddr s"
  "timers (await_handler i b k scr s) = timers s"
  "nextTimer (await_handler i b k scr s) = nextTimer s"
  "nextTask (await_handler i b k scr s) = nextTask s"
  by (simp_all add: await_handler_eq handler_settled_eq continue_eq Let_def split: sum.splits)

lemma await_handler_trace:
  "trace (await_handler i b k scr s) =
     trace s @ activation_effects (config s) (logger s) (bound_channel b) (heap s (messages b)) k scr"
  by (simp add: await_handler_eq handler_settled_eq continue_eq Let_def activation_effects_def
      catch_effects_def split: sum.splits settled.splits)

lemma await_handler_inflight:
  "inflight (await_handler i b k scr s) = inflight s @ activation_tasks i b k scr"
  by (simp add: await_handler_eq handler_settled_eq continue_eq Let_def activation_tasks_def
      split: sum.splits)

lemma sendBufferedMessages_eq:
  assumes "unackedMessageList s < nextAddr s"
  shows "sendBufferedMessages channel handler k s =
     await_handler (nextTask s) (flush_batch channel s) k
       (handler channel (flush_batch channel s) (buffered s))
       (append_trace [HandlerCalled channel (flush_batch channel s) (buffered s)] (detached s))"
  using assms
  by (simp add: sendBufferedMessages_def new_array_def finalizeMessages_def resetMessages_def
      Let_def flush_batch_def detached_def emit_append_trace append_trace_def buffered_def)

subsection \<open>The states between two turns\<close>

lemma wellformed_new: "wellformed (new_MessageBatchingManager cfg)"
  by (simp add: wellformed_def new_MessageBatchingManager_def resetMessages_def new_array_def
      Let_def total_bytes_def buffered_def)

lemma wellformed_sendBufferedMessages:
  assumes "wellformed s" "timerHandle s = None"
  shows "wellformed (sendBufferedMessages channel handler k s)"
  using assms
  by (auto simp add: wellformed_def sendBufferedMessages_eq detached_def buffered_def
      total_bytes_def await_handler_inflight activation_tasks_def split: sum.splits)

lemma wellformed_handleMessageBuffering:
  assumes "wellformed s"
  shows "wellformed (handleMessageBuffering channel msg handler s)"
proof (cases "size_reached (addMessage msg (s\<lparr>amqpChannel := Some channel\<rparr>))")
  case True
  let ?s2 = "addMessage msg (s\<lparr>amqpChannel := Some channel\<rparr>)"
  let ?s3 = "case timerHandle ?s2 of
               Some t \<Rightarrow> (clearTimeout t ?s2)\<lparr>timerHandle := None\<rparr>
             | None \<Rightarrow> ?s2"
  have "wellformed ?s3" "timerHandle ?s3 = None"
    using assms
    by (auto simp add: wellformed_def addMessage_def clearTimeout_def Let_def buffered_def
        total_bytes_def split: option.splits)
  then have "wellformed (sendBufferedMessages channel handler AwaitedByHandleMessageBuffering ?s3)"
    by (rule wellformed_sendBufferedMessages)
  moreover have "amqpChannel ?s3 = Some channel"
    by (simp add: addMessage_def clearTimeout_def Let_def split: option.splits)
  ultimately show ?thesis
    using True by (simp add: handleMessageBuffering_def Let_def)
next
  case False
  with assms show ?thesis
    by (auto simp add: handleMessageBuffering_def wellformed_def addMessage_def setTimeout_def
        Let_def buffered_def total_bytes_def emit_append_trace split: option.splits)
qed

lemma find_timer_id:
  "find (\<lambda>x. timer_id x = t) ts = Some tm \<Longrightarrow> timer_id tm = t \<and> tm \<in> set ts"
  by (induction ts) (auto split: if_splits)

lemma find_task_id:
  "find (\<lambda>x. task_id x = i) ts = Some tk \<Longrightarrow> task_id tk = i \<and> tk \<in> set ts"
  by (induction ts) (auto split: if_splits)

lemma wellformed_timer:
  assumes "wellformed s" "find (\<lambda>x. timer_id x = t) (timers s) = Some tm"
  shows "wellformed (timer_callback (timer_handler tm) (clearTimeout t s))"
proof -
  from assms have th: "timerHandle s = Some t" "timers s = [tm]"
    by (auto simp add: wellformed_def split: option.splits if_splits)
  then obtain c where c: "amqpChannel s = Some c"
    using assms(1) by (auto simp add: wellformed_def)
  show ?thesis
    using assms(1) th c find_timer_id[OF assms(2)]
    by (auto simp add: timer_callback_def sendBufferedMessages_eq wellformed_def
        clearTimeout_def detached_def buffered_def total_bytes_def
        await_handler_inflight activation_tasks_def split: sum.splits)
qed

lemma wellformed_resume:
  assumes "wellformed s" "find (\<lambda>x. task_id x = i) (inflight s) = Some tk"
  shows "wellformed (await_handler i b k scr (s\<lparr>inflight := filter (\<lambda>x. task_id x \<noteq> i) (inflight s)\<rparr>))"
  using assms(1) find_task_id[OF assms(2)]
  by (auto simp add: wellformed_def buffered_def await_handler_inflight
      activation_tasks_def distinct_map_filter split: sum.splits)

lemma wellformed_step: "wellformed s \<Longrightarrow> wellformed (step ev s)"
  by (cases ev)
     (auto simp add: step_def wellformed_handleMessageBuffering wellformed_timer wellformed_resume
      split: option.splits)

lemma wellformed_run: "wellformed s \<Longrightarrow> wellformed (run evs s)"
  by (induction evs arbitrary: s) (simp_all add: wellformed_step)

lemma run_append: "run (evs @ evs') s = run evs' (run evs s)"
  by (induction evs arbitrary: s) simp_all

lemma sendBufferedMessages_fields:
  assumes "unackedMessageList s < nextAddr s"
  shows "config (sendBufferedMessages c h k s) = config s"
    and "logger (sendBufferedMessages c h k s) = logger s"
    and "unackedMessageList (sendBufferedMessages c h k s) = Suc (nextAddr s)"
    and "nextAddr (sendBufferedMessages c h k s) = Suc (Suc (nextAddr s))"
    and "bufferSize (sendBufferedMessages c h k s) = 0"
    and "buffered (sendBufferedMessages c h k s) = []"
    and "heap (sendBufferedMessages c h k s) = (heap s)(nextAddr s := [], Suc (nextAddr s) := [])"
    and "timerHandle (sendBufferedMessages c h k s) = timerHandle s"
    and "timers (sendBufferedMessages c h k s) = timers s"
    and "nextTimer (sendBufferedMessages c h k s) = nextTimer s"
    and "amqpChannel (sendBufferedMessages c h k s) = amqpChannel s"
    and "nextTask (sendBufferedMessages c h k s) = Suc (nextTask s)"
    and "inflight (sendBufferedMessages c h k s) =
           inflight s @ activation_tasks (nextTask s) (flush_batch c s) k (h c (flush_batch c s) (buffered s))"
  using assms
  by (simp_all add: sendBufferedMessages_eq detached_def buffered_def await_handler_inflight)

lemma sendBufferedMessages_trace:
  assumes "unackedMessageList s < nextAddr s"
  shows "trace (sendBufferedMessages c h k s) = trace s @ flush_effects c h k s"
  using assms
  by (simp add: sendBufferedMessages_eq await_handler_trace flush_effects_def detached_def
      flush_batch_def buffered_def)

lemma wellformed_reachable: "wellformed (run evs (new_MessageBatchingManager cfg))"
  by (simp add: wellformed_run wellformed_new)


subsection \<open>Reading a trace\<close>

lemma total_bytes_simps [simp]:
  "total_bytes [] = 0"
  "total_bytes (m # ms) = byteLength (content m) + total_bytes ms"
  "total_bytes (ms @ ms') = total_bytes ms + total_bytes ms'"
  by (simp_all add: total_bytes_def)

lemma total_bytes_nonneg: "0 \<le> total_bytes ms"
  by (induction ms) (simp_all add: byteLength_def)

lemma handler_calls_append [simp]:
  "handler_calls (es @ es') = handler_calls es @ handler_calls es'"
  by (induction es rule: handler_calls.induct) simp_all

lemma handler_calls_log [simp]: "handler_calls (log_effects lg txt) = []"
  by (simp add: log_effects_def)

lemma handler_calls_acks [simp]: "handler_calls (map (ChannelAck c) ms) = []"
  by (induction ms) simp_all

lemma handler_calls_nacks [simp]: "handler_calls (map (\<lambda>m. ChannelNack c m r) ms) = []"
  by (induction ms) simp_all

lemma handler_calls_script [simp]: "handler_calls (script_effects lg c ms scr) = []"
  by (induction lg c ms scr rule: script_effects.induct)
     (simp_all add: ack_effects_def nack_effects_def)

lemma handler_calls_activation [simp]: "handler_calls (activation_effects cfg lg c ms k scr) = []"
  by (simp add: activation_effects_def catch_effects_def return_effects_def nack_effects_def
      split: sum.splits settled.splits continuation.splits)

lemma handler_calls_flush [simp]:
  "handler_calls (flush_effects c h k s) = [(c, flush_batch c s, buffered s)]"
  by (simp add: flush_effects_def)

lemma handler_calls_replicate [simp]: "handler_calls (replicate n (Returned r)) = []"
  by (induction n) simp_all

subsection \<open>One call of handleMessageBuffering\<close>

lemma size_reached_addMessage:
  "size_reached (addMessage m (s\<lparr>amqpChannel := Some c\<rparr>)) \<longleftrightarrow> \<not> below m s"
  by (auto simp add: size_reached_def below_def addMessage_def Let_def split: option.splits)

lemma handleMessageBuffering_below:
  assumes "below m s"
  shows "buffered (handleMessageBuffering c m h s) = buffered s @ [m]"
    and "bufferSize (handleMessageBuffering c m h s) = bufferSize s + byteLength (content m)"
    and "trace (handleMessageBuffering c m h s) = trace s @ [Returned Fulfilled]"
    and "config (handleMessageBuffering c m h s) = config s"
    and "logger (handleMessageBuffering c m h s) = logger s"
    and "unackedMessageList (handleMessageBuffering c m h s) = unackedMessageList s"
    and "nextAddr (handleMessageBuffering c m h s) = nextAddr s"
    and "inflight (handleMessageBuffering c m h s) = inflight s"
    and "nextTask (handleMessageBuffering c m h s) = nextTask s"
    and "amqpChannel (handleMessageBuffering c m h s) = Some c"
    and "heap (handleMessageBuffering c m h s) = (heap s)(unackedMessageList s := buffered s @ [m])"
  using assms
  by (simp_all add: handleMessageBuffering_def size_reached_addMessage Let_def)
     (simp_all add: addMessage_def setTimeout_def emit_append_trace buffered_def Let_def
       split: option.splits)

lemma handleMessageBuffering_reached:
  assumes "\<not> below m s"
  shows "handleMessageBuffering c m h s =
     sendBufferedMessages c h AwaitedByHandleMessageBuffering
       (disarmed (addMessage m (s\<lparr>amqpChannel := Some c\<rparr>)))"
proof -
  have "amqpChannel (disarmed (addMessage m (s\<lparr>amqpChannel := Some c\<rparr>))) = Some c"
    by (simp add: disarmed_def addMessage_def clearTimeout_def Let_def split: option.splits)
  then show ?thesis
    using assms
    by (simp add: handleMessageBuffering_def size_reached_addMessage Let_def disarmed_def[symmetric])
qed

lemma disarmed_addMessage_fields:
  "config (disarmed (addMessage m (s\<lparr>amqpChannel := Some c\<rparr>))) = config s"
  "logger (disarmed (addMessage m (s\<lparr>amqpChannel := Some c\<rparr>))) = logger s"
  "unackedMessageList (disarmed (addMessage m (s\<lparr>amqpChannel := Some c\<rparr>))) = unackedMessageList s"
  "nextAddr (disarmed (addMessage m (s\<lparr>amqpChannel := Some c\<rparr>))) = nextAddr s"
  "bufferSize (disarmed (addMessage m (s\<lparr>amqpChannel := Some c\<rparr>))) = bufferSize s + byteLength (content m)"
  "buffered (disarmed (addMessage m (s\<lparr>amqpChannel := Some c\<rparr>))) = buffered s @ [m]"
  "heap (disarmed (addMessage m (s\<lparr>amqpChannel := Some c\<rparr>))) = (heap s)(unackedMessageList s := buffered s @ [m])"
  "trace (disarmed (addMessage m (s\<lparr>amqpChannel := Some c\<rparr>))) = trace s"
  "inflight (disarmed (addMessage m (s\<lparr>amqpChannel := Some c\<rparr>))) = inflight s"
  "nextTask (disarmed (addMessage m (s\<lparr>amqpChannel := Some c\<rparr>))) = nextTask s"
  "timerHandle (disarmed (addMessage m (s\<lparr>amqpChannel := Some c\<rparr>))) = None"
  "amqpChannel (disarmed (addMessage m (s\<lparr>amqpChannel := Some c\<rparr>))) = Some c"
  by (simp_all add: disarmed_def addMessage_def clearTimeout_def buffered_def Let_def
      split: option.splits)

lemma disarmed_timers:
  assumes "wellformed s"
  shows "timers (disarmed (addMessage m (s\<lparr>amqpChannel := Some c\<rparr>))) = []"
  using assms
  by (auto simp add: disarmed_def addMessage_def clearTimeout_def wellformed_def Let_def
      filter_empty_conv split: option.splits)

lemma handleMessageBuffering_flush:
  assumes "unackedMessageList s < nextAddr s" "\<not> below m s"
  shows "trace (handleMessageBuffering c m h s) =
           trace s @ HandlerCalled c (triggered_batch c m s) (buffered s @ [m])
             # activation_effects (config s) (logger s) c (buffered s @ [m])
                 AwaitedByHandleMessageBuffering (h c (triggered_batch c m s) (buffered s @ [m]))"
    and "buffered (handleMessageBuffering c m h s) = []"
    and "bufferSize (handleMessageBuffering c m h s) = 0"
    and "timerHandle (handleMessageBuffering c m h s) = None"
    and "config (handleMessageBuffering c m h s) = config s"
    and "logger (handleMessageBuffering c m h s) = logger s"
  using assms
  by (simp_all add: handleMessageBuffering_reached sendBufferedMessages_fields
      sendBufferedMessages_trace disarmed_addMessage_fields flush_effects_def flush_batch_def
      triggered_batch_def)


subsection \<open>Turns of the event loop\<close>

lemma config_logger_step:
  assumes "wellformed s"
  shows "config (step ev s) = config s \<and> logger (step ev s) = logger s"
proof (cases ev)
  case (Message c m h)
  show ?thesis
  proof (cases "below m s")
    case True
    then show ?thesis by (simp add: Message step_def handleMessageBuffering_below)
  next
    case False
    moreover have "unackedMessageList s < nextAddr s"
      using assms by (simp add: wellformed_def)
    ultimately show ?thesis by (simp add: Message step_def handleMessageBuffering_flush)
  qed
next
  case (TimerFires t)
  have "unackedMessageList (clearTimeout t s) < nextAddr (clearTimeout t s)"
    using assms by (simp add: wellformed_def clearTimeout_def)
  then show ?thesis
    by (simp add: TimerFires step_def timer_callback_def sendBufferedMessages_fields
        split: option.splits)
       (simp add: clearTimeout_def)
next
  case (HandlerResumes i)
  then show ?thesis by (simp add: step_def split: option.splits)
qed

lemma config_logger_run:
  assumes "wellformed s"
  shows "config (run evs s) = config s \<and> logger (run evs s) = logger s"
  using assms
proof (induction evs arbitrary: s)
  case Nil
  then show ?case by simp
next
  case (Cons ev evs)
  then show ?case
    using config_logger_step[of s ev] wellformed_step[of s ev] by simp
qed

lemma config_new: "config (new_MessageBatchingManager cfg) = cfg"
  by (simp add: new_MessageBatchingManager_def resetMessages_def new_array_def Let_def)

lemma logger_new: "logger (new_MessageBatchingManager cfg) = providers_logger cfg"
  by (simp add: new_MessageBatchingManager_def resetMessages_def new_array_def Let_def)

lemma config_reachable: "config (run evs (new_MessageBatchingManager cfg)) = cfg"
  by (simp add: config_logger_run wellformed_new config_new)

lemma call_message_simp [simp]: "call_message (c, m, h) = m"
  by (simp add: call_message_def)

lemma step_call: "step (call_event (c, m, h)) s = handleMessageBuffering c m h s"
  by (simp add: step_def call_event_def)

lemma accumulate:
  assumes "wellformed s"
    and "maxSizeBytes (config s) = Some N"
    and "bufferSize s + total_bytes (map call_message calls) < N"
  shows "buffered (run (map call_event calls) s) = buffered s @ map call_message calls
       \<and> trace (run (map call_event calls) s) = trace s @ replicate (length calls) (Returned Fulfilled)
       \<and> unackedMessageList (run (map call_event calls) s) = unackedMessageList s
       \<and> config (run (map call_event calls) s) = config s
       \<and> logger (run (map call_event calls) s) = logger s
       \<and> inflight (run (map call_event calls) s) = inflight s"
  using assms
proof (induction calls arbitrary: s)
  case Nil
  then show ?case by simp
next
  case (Cons cl calls)
  obtain c m h where cl: "cl = (c, m, h)" by (cases cl)
  let ?s1 = "handleMessageBuffering c m h s"
  have nonneg: "0 \<le> total_bytes (map call_message calls)"
    by (rule total_bytes_nonneg)
  have b: "below m s"
    using Cons.prems nonneg by (simp add: below_def cl)
  have wf1: "wellformed ?s1"
    using Cons.prems(1) by (rule wellformed_handleMessageBuffering)
  have "bufferSize ?s1 + total_bytes (map call_message calls) < N"
    using Cons.prems(3) by (simp add: handleMessageBuffering_below[OF b] cl)
  moreover have "maxSizeBytes (config ?s1) = Some N"
    using Cons.prems(2) by (simp add: handleMessageBuffering_below[OF b])
  ultimately have IH: "buffered (run (map call_event calls) ?s1) = buffered ?s1 @ map call_message calls
       \<and> trace (run (map call_event calls) ?s1) = trace ?s1 @ replicate (length calls) (Returned Fulfilled)
       \<and> unackedMessageList (run (map call_event calls) ?s1) = unackedMessageList ?s1
       \<and> config (run (map call_event calls) ?s1) = config ?s1
       \<and> logger (run (map call_event calls) ?s1) = logger ?s1
       \<and> inflight (run (map call_event calls) ?s1) = inflight ?s1"
    using Cons.IH[OF wf1] by blast
  show ?case
    using IH
    by (simp add: cl step_call handleMessageBuffering_below[OF b] replicate_app_Cons_same)
qed

lemma flush_effects_clearTimeout [simp]:
  "flush_effects c h k (clearTimeout t s) = flush_effects c h k s"
  by (simp add: flush_effects_def flush_batch_def buffered_def clearTimeout_def)

lemma step_trace:
  assumes "unackedMessageList s < nextAddr s"
  shows "trace (step ev s) = trace s @ step_effects ev s"
proof (cases ev)
  case (Message c m h)
  then show ?thesis
    using assms
    by (simp add: step_def step_effects_def handleMessageBuffering_below
        handleMessageBuffering_flush)
next
  case (TimerFires t)
  have "unackedMessageList (clearTimeout t s) < nextAddr (clearTimeout t s)"
    using assms by (simp add: clearTimeout_def)
  then show ?thesis
    by (simp add: TimerFires step_def step_effects_def timer_callback_def
        sendBufferedMessages_trace split: option.splits)
       (simp add: clearTimeout_def)
next
  case (HandlerResumes i)
  then show ?thesis
    by (simp add: step_def step_effects_def await_handler_trace split: option.splits)
qed

lemma run_trace:
  assumes "wellformed s"
  shows "trace (run evs s) = trace s @ run_effects evs s"
  using assms
proof (induction evs arbitrary: s)
  case Nil
  then show ?case by simp
next
  case (Cons ev evs)
  have "unackedMessageList s < nextAddr s"
    using Cons.prems by (simp add: wellformed_def)
  then have "trace (step ev s) = trace s @ step_effects ev s"
    by (rule step_trace)
  moreover have "wellformed (step ev s)"
    using Cons.prems by (rule wellformed_step)
  ultimately show ?case
    using Cons.IH[of "step ev s"] by simp
qed

lemma no_flush_accumulates:
  assumes "wellformed s"
    and "handler_calls (trace (run (map call_event calls) s)) = handler_calls (trace s)"
  shows "buffered (run (map call_event calls) s) = buffered s @ map call_message calls
       \<and> bufferSize (run (map call_event calls) s) = bufferSize s + total_bytes (map call_message calls)"
  using assms
proof (induction calls arbitrary: s)
  case Nil
  then show ?case by simp
next
  case (Cons cl calls)
  obtain c m h where cl: "cl = (c, m, h)" by (cases cl)
  let ?s1 = "handleMessageBuffering c m h s"
  have alloc: "unackedMessageList s < nextAddr s"
    using Cons.prems(1) by (simp add: wellformed_def)
  have wf1: "wellformed ?s1"
    using Cons.prems(1) by (rule wellformed_handleMessageBuffering)
  have tr: "trace (run (map call_event calls) ?s1) = trace ?s1 @ run_effects (map call_event calls) ?s1"
    using wf1 by (rule run_trace)
  have b: "below m s"
  proof (rule ccontr)
    assume nb: "\<not> below m s"
    show False
      using Cons.prems(2)
      by (simp add: cl step_call tr handleMessageBuffering_flush(1)[OF alloc nb])
  qed
  have "handler_calls (trace (run (map call_event calls) ?s1)) = handler_calls (trace ?s1)"
    using Cons.prems(2) by (simp add: cl step_call handleMessageBuffering_below[OF b])
  then have "buffered (run (map call_event calls) ?s1) = buffered ?s1 @ map call_message calls
       \<and> bufferSize (run (map call_event calls) ?s1) = bufferSize ?s1 + total_bytes (map call_message calls)"
    using Cons.IH[OF wf1] by blast
  then show ?case
    by (simp add: cl step_call handleMessageBuffering_below[OF b])
qed

lemma fold_addMessage:
  "buffered (fold addMessage ms s) = buffered s @ ms
   \<and> bufferSize (fold addMessage ms s) = bufferSize s + total_bytes ms"
  by (induction ms arbitrary: s) (simp_all add: addMessage_def buffered_def Let_def)

lemmas model_defs =
  new_MessageBatchingManager_def resetMessages_def new_array_def addMessage_def
  finalizeMessages_def getMessageCount_def getBufferSize_def emit_def logger_trace_def
  ackMessageList_def nackMessageList_def ackAll_def nackAll_def handler_settled_def
  continue_def await_handler_def sendBufferedMessages_def setTimeout_def clearTimeout_def
  timer_callback_def size_reached_def handleMessageBuffering_def step_def
  truthy_bool_def truthy_num_def byteLength_def Let_def

subsection \<open>The fields after a turn\<close>

lemma new_fields:
  "trace (new_MessageBatchingManager cfg) = []"
  "buffered (new_MessageBatchingManager cfg) = []"
  "inflight (new_MessageBatchingManager cfg) = []"
  by (simp_all add: model_defs buffered_def)

lemma handleMessageBuffering_flush_more:
  assumes "unackedMessageList s < nextAddr s" "\<not> below m s"
  shows "unackedMessageList (handleMessageBuffering c m h s) = Suc (nextAddr s)"
    and "nextAddr (handleMessageBuffering c m h s) = Suc (Suc (nextAddr s))"
    and "heap (handleMessageBuffering c m h s) =
           (heap s)(unackedMessageList s := buffered s @ [m], nextAddr s := [], Suc (nextAddr s) := [])"
    and "inflight (handleMessageBuffering c m h s) =
           inflight s @ activation_tasks (nextTask s) (triggered_batch c m s)
              AwaitedByHandleMessageBuffering (h c (triggered_batch c m s) (buffered s @ [m]))"
    and "nextTask (handleMessageBuffering c m h s) = Suc (nextTask s)"
    and "amqpChannel (handleMessageBuffering c m h s) = Some c"
  using assms
  by (simp_all add: handleMessageBuffering_reached sendBufferedMessages_fields
      disarmed_addMessage_fields flush_batch_def triggered_batch_def)

lemma timer_fires:
  assumes "wellformed s" "find (\<lambda>x. timer_id x = t) (timers s) = Some tm"
  obtains c where "amqpChannel s = Some c" "timerHandle s = Some t" "timers s = [tm]"
    "buffered s \<noteq> []"
    "step (TimerFires t) s =
       (sendBufferedMessages c (timer_handler tm) NotAwaited (clearTimeout t s))\<lparr>timerHandle := None\<rparr>"
proof -
  from assms have th: "timerHandle s = Some t" "timers s = [tm]"
    by (auto simp add: wellformed_def split: option.splits if_splits)
  then obtain c where c: "amqpChannel s = Some c"
    using assms(1) by (auto simp add: wellformed_def)
  have ne: "buffered s \<noteq> []"
    using assms(1) th by (simp add: wellformed_def)
  have "amqpChannel (clearTimeout t s) = Some c"
    using c by (simp add: clearTimeout_def)
  then have "step (TimerFires t) s =
       (sendBufferedMessages c (timer_handler tm) NotAwaited (clearTimeout t s))\<lparr>timerHandle := None\<rparr>"
    using assms(2) by (simp add: step_def timer_callback_def)
  with c th ne that show thesis by blast
qed

lemma clearTimeout_fields [simp]:
  "config (clearTimeout t s) = config s"
  "unackedMessageList (clearTimeout t s) = unackedMessageList s"
  "bufferSize (clearTimeout t s) = bufferSize s"
  "timerHandle (clearTimeout t s) = timerHandle s"
  "amqpChannel (clearTimeout t s) = amqpChannel s"
  "logger (clearTimeout t s) = logger s"
  "heap (clearTimeout t s) = heap s"
  "nextAddr (clearTimeout t s) = nextAddr s"
  "nextTimer (clearTimeout t s) = nextTimer s"
  "inflight (clearTimeout t s) = inflight s"
  "nextTask (clearTimeout t s) = nextTask s"
  "trace (clearTimeout t s) = trace s"
  "buffered (clearTimeout t s) = buffered s"
  "flush_batch c (clearTimeout t s) = flush_batch c s"
  by (simp_all add: clearTimeout_def buffered_def flush_batch_def)

lemma timer_fires_fields:
  assumes "wellformed s" "find (\<lambda>x. timer_id x = t) (timers s) = Some tm" "amqpChannel s = Some c"
  shows "unackedMessageList (step (TimerFires t) s) = Suc (nextAddr s)"
    and "nextAddr (step (TimerFires t) s) = Suc (Suc (nextAddr s))"
    and "heap (step (TimerFires t) s) = (heap s)(nextAddr s := [], Suc (nextAddr s) := [])"
    and "inflight (step (TimerFires t) s) =
           inflight s @ activation_tasks (nextTask s) (flush_batch c s) NotAwaited
              (timer_handler tm c (flush_batch c s) (buffered s))"
    and "nextTask (step (TimerFires t) s) = Suc (nextTask s)"
    and "timerHandle (step (TimerFires t) s) = None"
    and "timers (step (TimerFires t) s) = []"
    and "buffered (step (TimerFires t) s) = []"
    and "trace (step (TimerFires t) s) = trace s @ flush_effects c (timer_handler tm) NotAwaited s"
proof -
  have alloc: "unackedMessageList (clearTimeout t s) < nextAddr (clearTimeout t s)"
    using assms(1) by (simp add: wellformed_def)
  have st: "step (TimerFires t) s =
       (sendBufferedMessages c (timer_handler tm) NotAwaited (clearTimeout t s))\<lparr>timerHandle := None\<rparr>"
    using timer_fires[OF assms(1,2)] assms(3) by fastforce
  have "timers s = [tm]"
    using timer_fires[OF assms(1,2)] by blast
  then have tms: "timers (clearTimeout t s) = []"
    using find_timer_id[OF assms(2)] by (simp add: clearTimeout_def)
  show "unackedMessageList (step (TimerFires t) s) = Suc (nextAddr s)"
    and "nextAddr (step (TimerFires t) s) = Suc (Suc (nextAddr s))"
    and "heap (step (TimerFires t) s) = (heap s)(nextAddr s := [], Suc (nextAddr s) := [])"
    and "inflight (step (TimerFires t) s) =
           inflight s @ activation_tasks (nextTask s) (flush_batch c s) NotAwaited
              (timer_handler tm c (flush_batch c s) (buffered s))"
    and "nextTask (step (TimerFires t) s) = Suc (nextTask s)"
    and "timerHandle (step (TimerFires t) s) = None"
    and "timers (step (TimerFires t) s) = []"
    and "buffered (step (TimerFires t) s) = []"
    and "trace (step (TimerFires t) s) = trace s @ flush_effects c (timer_handler tm) NotAwaited s"
    using tms
    by (simp_all add: st sendBufferedMessages_fields[OF alloc] sendBufferedMessages_trace[OF alloc]
        buffered_def)
qed


lemma step_Message: "step (Message c m h) s = handleMessageBuffering c m h s"
  by (simp add: step_def)

lemma handleMessageBuffering_timers_flush:
  assumes "wellformed s" "\<not> below m s"
  shows "timers (handleMessageBuffering c m h s) = []"
  using assms
  by (simp add: handleMessageBuffering_reached sendBufferedMessages_fields
      disarmed_addMessage_fields disarmed_timers wellformed_def)

lemma handleMessageBuffering_armed:
  assumes "below m s" "timerHandle s \<noteq> None"
  shows "timers (handleMessageBuffering c m h s) = timers s"
    and "timerHandle (handleMessageBuffering c m h s) = timerHandle s"
  using assms
  by (simp_all add: handleMessageBuffering_def size_reached_addMessage Let_def)
     (auto simp add: addMessage_def emit_def Let_def split: option.splits)

lemma handleMessageBuffering_below_timers:
  assumes "below m s"
  shows "timers (handleMessageBuffering c m h s) =
           (if truthy_num (maxTimeMs (config s)) \<and> timerHandle s = None
            then timers s @ [\<lparr>timer_id = nextTimer s, timer_delay = the (maxTimeMs (config s)),
                               timer_handler = h\<rparr>]
            else timers s)"
    and "timerHandle (handleMessageBuffering c m h s) =
           (if truthy_num (maxTimeMs (config s)) \<and> timerHandle s = None
            then Some (nextTimer s) else timerHandle s)"
  using assms
  by (simp_all add: handleMessageBuffering_def size_reached_addMessage Let_def)
     (auto simp add: addMessage_def emit_def setTimeout_def truthy_num_def Let_def
       split: option.splits)

subsection \<open>Batches keep their messages\<close>

lemma handler_calls_mem:
  "(c, b, ms) \<in> set (handler_calls es) \<longleftrightarrow> HandlerCalled c b ms \<in> set es"
  by (induction es rule: handler_calls.induct) auto

lemma kept_new: "kept (new_MessageBatchingManager cfg)"
  by (simp add: kept_def model_defs)

lemma activation_tasks_set:
  "tk \<in> set (activation_tasks i b k scr) \<Longrightarrow> task_batch tk = b \<and> task_id tk = i \<and> task_cont tk = k"
  by (auto simp add: activation_tasks_def split: sum.splits)

lemma kept_task:
  assumes "kept s" "tk \<in> set (inflight s)"
  shows "messages (task_batch tk) < nextAddr s \<and> messages (task_batch tk) \<noteq> unackedMessageList s
    \<and> heap s (messages (task_batch tk)) \<noteq> []"
  using assms by (fastforce simp add: kept_def)

lemma kept_intro:
  assumes "\<And>c b ms. (c, b, ms) \<in> set (handler_calls (trace s)) \<Longrightarrow>
            bound_channel b = c \<and> ms \<noteq> [] \<and> messages b < nextAddr s
            \<and> messages b \<noteq> unackedMessageList s \<and> heap s (messages b) = ms"
    and "\<And>tk. tk \<in> set (inflight s) \<Longrightarrow>
            (bound_channel (task_batch tk), task_batch tk, heap s (messages (task_batch tk)))
              \<in> set (handler_calls (trace s))"
  shows "kept s"
  using assms by (auto simp add: kept_def)

lemma kept_batch:
  assumes "kept s" "(c, b, ms) \<in> set (handler_calls (trace s))"
  shows "bound_channel b = c \<and> ms \<noteq> [] \<and> messages b < nextAddr s
            \<and> messages b \<noteq> unackedMessageList s \<and> heap s (messages b) = ms"
  using assms by (fastforce simp add: kept_def)

lemma kept_known:
  assumes "kept s" "tk \<in> set (inflight s)"
  shows "(bound_channel (task_batch tk), task_batch tk, heap s (messages (task_batch tk)))
              \<in> set (handler_calls (trace s))"
  using assms by (simp add: kept_def)

lemma kept_below:
  assumes "kept s" "below m s"
  shows "kept (handleMessageBuffering c m h s)"
proof (rule kept_intro)
  fix c' b ms
  assume "(c', b, ms) \<in> set (handler_calls (trace (handleMessageBuffering c m h s)))"
  then have "(c', b, ms) \<in> set (handler_calls (trace s))"
    by (simp add: handleMessageBuffering_below[OF assms(2)])
  from kept_batch[OF assms(1) this]
  show "bound_channel b = c' \<and> ms \<noteq> [] \<and> messages b < nextAddr (handleMessageBuffering c m h s)
     \<and> messages b \<noteq> unackedMessageList (handleMessageBuffering c m h s)
     \<and> heap (handleMessageBuffering c m h s) (messages b) = ms"
    by (simp add: handleMessageBuffering_below[OF assms(2)])
next
  fix tk
  assume "tk \<in> set (inflight (handleMessageBuffering c m h s))"
  then have tk: "tk \<in> set (inflight s)"
    by (simp add: handleMessageBuffering_below[OF assms(2)])
  from kept_known[OF assms(1) tk] kept_task[OF assms(1) tk]
  show "(bound_channel (task_batch tk), task_batch tk,
          heap (handleMessageBuffering c m h s) (messages (task_batch tk)))
        \<in> set (handler_calls (trace (handleMessageBuffering c m h s)))"
    by (simp add: handleMessageBuffering_below[OF assms(2)])
qed

lemma kept_flush:
  assumes "kept s" "unackedMessageList s < nextAddr s" "\<not> below m s"
  shows "kept (handleMessageBuffering c m h s)"
proof (rule kept_intro)
  let ?s' = "handleMessageBuffering c m h s"
  note f = handleMessageBuffering_flush[OF assms(2,3)] handleMessageBuffering_flush_more[OF assms(2,3)]
  fix c' b ms
  assume "(c', b, ms) \<in> set (handler_calls (trace ?s'))"
  then consider "(c', b, ms) \<in> set (handler_calls (trace s))"
    | "c' = c" "b = triggered_batch c m s" "ms = buffered s @ [m]"
    by (auto simp add: f)
  then show "bound_channel b = c' \<and> ms \<noteq> [] \<and> messages b < nextAddr ?s'
     \<and> messages b \<noteq> unackedMessageList ?s' \<and> heap ?s' (messages b) = ms"
  proof cases
    case 1
    from kept_batch[OF assms(1) this] show ?thesis
      by (simp add: f)
  next
    case 2
    then show ?thesis
      using assms(2) by (simp add: f triggered_batch_def)
  qed
next
  let ?s' = "handleMessageBuffering c m h s"
  note f = handleMessageBuffering_flush[OF assms(2,3)] handleMessageBuffering_flush_more[OF assms(2,3)]
  fix tk
  assume "tk \<in> set (inflight ?s')"
  then consider "tk \<in> set (inflight s)"
    | "tk \<in> set (activation_tasks (nextTask s) (triggered_batch c m s)
              AwaitedByHandleMessageBuffering (h c (triggered_batch c m s) (buffered s @ [m])))"
    by (auto simp add: f)
  then show "(bound_channel (task_batch tk), task_batch tk, heap ?s' (messages (task_batch tk)))
        \<in> set (handler_calls (trace ?s'))"
  proof cases
    case 1
    from kept_known[OF assms(1) 1] kept_task[OF assms(1) 1] show ?thesis
      by (simp add: f)
  next
    case 2
    from activation_tasks_set[OF 2] show ?thesis
      using assms(2) by (simp add: f triggered_batch_def)
  qed
qed

lemma kept_timer:
  assumes "kept s" "wellformed s" "find (\<lambda>x. timer_id x = t) (timers s) = Some tm"
  shows "kept (step (TimerFires t) s)"
proof -
  obtain c where c: "amqpChannel s = Some c" and ne: "buffered s \<noteq> []"
    using timer_fires[OF assms(2,3)] by blast
  have alloc: "unackedMessageList s < nextAddr s"
    using assms(2) by (simp add: wellformed_def)
  let ?s' = "step (TimerFires t) s"
  note f = timer_fires_fields[OF assms(2,3) c]
  show ?thesis
  proof (rule kept_intro)
    fix c' b ms
    assume "(c', b, ms) \<in> set (handler_calls (trace ?s'))"
    then consider "(c', b, ms) \<in> set (handler_calls (trace s))"
      | "c' = c" "b = flush_batch c s" "ms = buffered s"
      by (auto simp add: f)
    then show "bound_channel b = c' \<and> ms \<noteq> [] \<and> messages b < nextAddr ?s'
       \<and> messages b \<noteq> unackedMessageList ?s' \<and> heap ?s' (messages b) = ms"
    proof cases
      case 1
      from kept_batch[OF assms(1) this] show ?thesis
        by (simp add: f)
    next
      case 2
      then show ?thesis
        using alloc ne by (simp add: f flush_batch_def buffered_def)
    qed
  next
    fix tk
    assume "tk \<in> set (inflight ?s')"
    then consider "tk \<in> set (inflight s)"
      | "tk \<in> set (activation_tasks (nextTask s) (flush_batch c s) NotAwaited
              (timer_handler tm c (flush_batch c s) (buffered s)))"
      by (auto simp add: f)
    then show "(bound_channel (task_batch tk), task_batch tk, heap ?s' (messages (task_batch tk)))
          \<in> set (handler_calls (trace ?s'))"
    proof cases
      case 1
      from kept_known[OF assms(1) 1] kept_task[OF assms(1) 1] show ?thesis
        by (simp add: f)
    next
      case 2
      from activation_tasks_set[OF 2] show ?thesis
        using alloc by (simp add: f flush_batch_def buffered_def)
    qed
  qed
qed

lemma kept_resume:
  assumes "kept s" "find (\<lambda>x. task_id x = i) (inflight s) = Some tk"
  shows "kept (step (HandlerResumes i) s)"
  using assms(1) find_task_id[OF assms(2)] assms(2)
  by (auto simp add: kept_def step_def await_handler_trace await_handler_inflight
      dest!: activation_tasks_set)

lemma kept_step:
  assumes "wellformed s" "kept s"
  shows "kept (step ev s)"
proof (cases ev)
  case (Message c m h)
  have "unackedMessageList s < nextAddr s"
    using assms(1) by (simp add: wellformed_def)
  then show ?thesis
    using assms(2) kept_below[of s m c h] kept_flush[of s m c h]
    by (cases "below m s") (simp_all add: Message step_def)
next
  case (TimerFires t)
  show ?thesis
  proof (cases "find (\<lambda>x. timer_id x = t) (timers s)")
    case None
    then show ?thesis using assms(2) by (simp add: TimerFires step_def)
  next
    case (Some tm)
    then show ?thesis using assms kept_timer by (simp add: TimerFires)
  qed
next
  case (HandlerResumes i)
  show ?thesis
  proof (cases "find (\<lambda>x. task_id x = i) (inflight s)")
    case None
    then show ?thesis using assms(2) by (simp add: HandlerResumes step_def)
  next
    case (Some tk)
    then show ?thesis using assms kept_resume by (simp add: HandlerResumes)
  qed
qed

lemma kept_run:
  assumes "wellformed s" "kept s"
  shows "kept (run evs s)"
  using assms
  by (induction evs arbitrary: s) (simp_all add: kept_step wellformed_step)

lemma kept_reachable: "kept (run evs (new_MessageBatchingManager cfg))"
  by (simp add: kept_run kept_new wellformed_new)


subsection \<open>Turns in which a handler settles\<close>

lemma logger_reachable: "logger (run evs (new_MessageBatchingManager cfg)) = providers_logger cfg"
  by (simp add: config_logger_run wellformed_new logger_new)

lemma reachable_alloc:
  "unackedMessageList (run evs (new_MessageBatchingManager cfg))
     < nextAddr (run evs (new_MessageBatchingManager cfg))"
  using wellformed_reachable[of evs cfg] by (simp add: wellformed_def)

text \<open>The effects of the three kinds of turn in which a handler settles.\<close>

lemma settled_in_call:
  assumes "s = run evs (new_MessageBatchingManager cfg)"
    and "\<not> below m s"
    and "script_outcome (h c (triggered_batch c m s) (buffered s @ [m])) = Inl r"
  shows "trace (step (Message c m h) s) =
           trace s @ [HandlerCalled c (triggered_batch c m s) (buffered s @ [m])]
           @ script_effects (providers_logger cfg) c (buffered s @ [m])
               (h c (triggered_batch c m s) (buffered s @ [m]))
           @ catch_effects cfg (providers_logger cfg) c (buffered s @ [m]) r
           @ [Returned Fulfilled]"
  using assms(2,3) reachable_alloc[of evs cfg]
  by (simp add: step_trace step_effects_def activation_effects_def return_effects_def
      assms(1)[symmetric] config_reachable[of evs cfg, folded assms(1)]
      logger_reachable[of evs cfg, folded assms(1)])

lemma settled_in_timer:
  assumes "s = run evs (new_MessageBatchingManager cfg)"
    and "find (\<lambda>x. timer_id x = t) (timers s) = Some tm"
    and "amqpChannel s = Some c"
    and "script_outcome (timer_handler tm c (flush_batch c s) (buffered s)) = Inl r"
  shows "trace (step (TimerFires t) s) =
           trace s @ [HandlerCalled c (flush_batch c s) (buffered s)]
           @ script_effects (providers_logger cfg) c (buffered s)
               (timer_handler tm c (flush_batch c s) (buffered s))
           @ catch_effects cfg (providers_logger cfg) c (buffered s) r"
  using assms(2,3,4) reachable_alloc[of evs cfg]
  by (simp add: step_trace step_effects_def activation_effects_def return_effects_def
      flush_effects_def
      assms(1)[symmetric] config_reachable[of evs cfg, folded assms(1)]
      logger_reachable[of evs cfg, folded assms(1)])

lemma settled_in_resumption:
  assumes "s = run evs (new_MessageBatchingManager cfg)"
    and "find (\<lambda>x. task_id x = i) (inflight s) = Some tk"
    and "script_outcome (task_script tk) = Inl r"
  shows "trace (step (HandlerResumes i) s) =
           trace s
           @ script_effects (providers_logger cfg) (bound_channel (task_batch tk))
               (heap s (messages (task_batch tk))) (task_script tk)
           @ catch_effects cfg (providers_logger cfg) (bound_channel (task_batch tk))
               (heap s (messages (task_batch tk))) r
           @ return_effects (task_cont tk)"
  using assms(2,3) reachable_alloc[of evs cfg]
  by (simp add: step_trace step_effects_def activation_effects_def
      assms(1)[symmetric] config_reachable[of evs cfg, folded assms(1)]
      logger_reachable[of evs cfg, folded assms(1)])

lemma task_batch_called:
  assumes "s = run evs (new_MessageBatchingManager cfg)"
    and "find (\<lambda>x. task_id x = i) (inflight s) = Some tk"
  shows "HandlerCalled (bound_channel (task_batch tk)) (task_batch tk)
           (heap s (messages (task_batch tk))) \<in> set (trace s)
         \<and> heap s (messages (task_batch tk)) \<noteq> []"
proof -
  have k: "kept s" using assms(1) by (simp add: kept_reachable)
  have tk: "tk \<in> set (inflight s)" using find_task_id[OF assms(2)] by simp
  show ?thesis
    using kept_known[OF k tk] kept_task[OF k tk] by (simp add: handler_calls_mem)
qed

subsection \<open>Returns and batches of a run\<close>

lemma returns_append [simp]: "returns (es @ es') = returns es @ returns es'"
  by (induction es rule: returns.induct) simp_all

lemma unhandled_append [simp]: "unhandled (es @ es') = unhandled es @ unhandled es'"
  by (induction es rule: unhandled.induct) simp_all

lemma returns_mem: "r \<in> set (returns es) \<longleftrightarrow> Returned r \<in> set es"
  by (induction es rule: returns.induct) auto

lemma unhandled_mem: "e \<in> set (unhandled es) \<longleftrightarrow> UnhandledRejection e \<in> set es"
  by (induction es rule: unhandled.induct) auto

lemma quiet_log [simp]: "returns (log_effects lg txt) = []" "unhandled (log_effects lg txt) = []"
  by (simp_all add: log_effects_def)

lemma quiet_acks [simp]:
  "returns (map (ChannelAck c) ms) = []" "unhandled (map (ChannelAck c) ms) = []"
  by (induction ms) simp_all

lemma quiet_nacks [simp]:
  "returns (map (\<lambda>m. ChannelNack c m r) ms) = []" "unhandled (map (\<lambda>m. ChannelNack c m r) ms) = []"
  by (induction ms) simp_all

lemma quiet_script [simp]:
  "returns (script_effects lg c ms scr) = []" "unhandled (script_effects lg c ms scr) = []"
  by (induction lg c ms scr rule: script_effects.induct)
     (simp_all add: ack_effects_def nack_effects_def)

lemma quiet_catch [simp]:
  "returns (catch_effects cfg lg c ms r) = []" "unhandled (catch_effects cfg lg c ms r) = []"
  by (simp_all add: catch_effects_def nack_effects_def split: settled.splits)

lemma returns_return_effects:
  "returns (return_effects k) = (if k = AwaitedByHandleMessageBuffering then [Fulfilled] else [])"
  "unhandled (return_effects k) = []"
  by (simp_all add: return_effects_def split: continuation.splits)

lemma returns_activation:
  "returns (activation_effects cfg lg c ms k scr) =
     (case script_outcome scr of
        Inl r \<Rightarrow> (if k = AwaitedByHandleMessageBuffering then [Fulfilled] else [])
      | Inr rest \<Rightarrow> [])"
  "unhandled (activation_effects cfg lg c ms k scr) = []"
  by (simp_all add: activation_effects_def returns_return_effects split: sum.splits)

lemma awaiting_activation:
  "length (filter (\<lambda>tk. task_cont tk = AwaitedByHandleMessageBuffering) (activation_tasks i b k scr)) =
     (case script_outcome scr of
        Inl r \<Rightarrow> 0
      | Inr rest \<Rightarrow> (if k = AwaitedByHandleMessageBuffering then 1 else 0))"
  by (simp add: activation_tasks_def split: sum.splits)

lemma filter_distinct_task:
  assumes "distinct (map task_id ts)" "find (\<lambda>x. task_id x = i) ts = Some tk"
  shows "length (filter P ts) = length (filter P (filter (\<lambda>x. task_id x \<noteq> i) ts)) + (if P tk then 1 else 0)"
  using assms
proof (induction ts)
  case Nil
  then show ?case by simp
next
  case (Cons a ts)
  show ?case
  proof (cases "task_id a = i")
    case True
    then have "a = tk" using Cons.prems(2) by simp
    moreover have "task_id a \<notin> task_id ` set ts"
      using Cons.prems(1) by simp
    then have "\<forall>x\<in>set ts. task_id x \<noteq> i"
      using True by blast
    then have "filter (\<lambda>x. task_id x \<noteq> i) ts = ts"
      by (simp add: filter_id_conv)
    ultimately show ?thesis using True by simp
  next
    case False
    then show ?thesis using Cons by simp
  qed
qed

lemma balance_step:
  assumes "wellformed s"
  shows "\<exists>n. returns (step_effects ev s) = replicate n Fulfilled
          \<and> n + awaiting (step ev s) = awaiting s + length (arrivals [ev])"
    and "unhandled (step_effects ev s) = []"
proof -
  have alloc: "unackedMessageList s < nextAddr s"
    using assms by (simp add: wellformed_def)
  show "unhandled (step_effects ev s) = []"
    by (simp add: step_effects_def returns_activation flush_effects_def
        split: event.splits option.splits)
  show "\<exists>n. returns (step_effects ev s) = replicate n Fulfilled
          \<and> n + awaiting (step ev s) = awaiting s + length (arrivals [ev])"
  proof (cases ev)
    case (Message c m h)
    show ?thesis
    proof (cases "below m s")
      case True
      then have "returns (step_effects ev s) = replicate 1 Fulfilled
          \<and> 1 + awaiting (step ev s) = awaiting s + length (arrivals [ev])"
        by (simp add: Message step_effects_def step_Message awaiting_def
            handleMessageBuffering_below)
      then show ?thesis by blast
    next
      case False
      let ?scr = "h c (triggered_batch c m s) (buffered s @ [m])"
      show ?thesis
      proof (cases "script_outcome ?scr")
        case (Inl r)
        then have "returns (step_effects ev s) = replicate 1 Fulfilled
          \<and> 1 + awaiting (step ev s) = awaiting s + length (arrivals [ev])"
          using False
          by (simp add: Message step_effects_def step_Message awaiting_def returns_activation
              handleMessageBuffering_flush_more[OF alloc False] awaiting_activation)
        then show ?thesis by blast
      next
        case (Inr rest)
        then have "returns (step_effects ev s) = replicate 0 Fulfilled
          \<and> 0 + awaiting (step ev s) = awaiting s + length (arrivals [ev])"
          using False
          by (simp add: Message step_effects_def step_Message awaiting_def returns_activation
              handleMessageBuffering_flush_more[OF alloc False] awaiting_activation)
        then show ?thesis by blast
      qed
    qed
  next
    case (TimerFires t)
    show ?thesis
    proof (cases "find (\<lambda>x. timer_id x = t) (timers s)")
      case None
      then have "returns (step_effects ev s) = replicate 0 Fulfilled
          \<and> 0 + awaiting (step ev s) = awaiting s + length (arrivals [ev])"
        by (simp add: TimerFires step_effects_def step_def)
      then show ?thesis by blast
    next
      case (Some tm)
      obtain c where c: "amqpChannel s = Some c"
        using timer_fires[OF assms Some] by blast
      have "returns (step_effects ev s) = replicate 0 Fulfilled
          \<and> 0 + awaiting (step ev s) = awaiting s + length (arrivals [ev])"
        by (simp add: TimerFires step_effects_def Some c flush_effects_def returns_activation
            awaiting_def timer_fires_fields[OF assms Some c] awaiting_activation
            split: sum.splits)
      then show ?thesis by blast
    qed
  next
    case (HandlerResumes i)
    show ?thesis
    proof (cases "find (\<lambda>x. task_id x = i) (inflight s)")
      case None
      then have "returns (step_effects ev s) = replicate 0 Fulfilled
          \<and> 0 + awaiting (step ev s) = awaiting s + length (arrivals [ev])"
        by (simp add: HandlerResumes step_effects_def step_def)
      then show ?thesis by blast
    next
      case (Some tk)
      have d: "distinct (map task_id (inflight s))"
        using assms by (simp add: wellformed_def)
      note split = filter_distinct_task[OF d Some,
          of "\<lambda>tk. task_cont tk = AwaitedByHandleMessageBuffering"]
      show ?thesis
      proof (cases "script_outcome (task_script tk)")
        case (Inl r)
        show ?thesis
        proof (cases "task_cont tk")
          case AwaitedByHandleMessageBuffering
          then have "returns (step_effects ev s) = replicate 1 Fulfilled
            \<and> 1 + awaiting (step ev s) = awaiting s + length (arrivals [ev])"
            using split Inl
            by (simp add: HandlerResumes step_effects_def step_def Some returns_activation
                awaiting_def await_handler_inflight awaiting_activation)
          then show ?thesis by blast
        next
          case NotAwaited
          then have "returns (step_effects ev s) = replicate 0 Fulfilled
            \<and> 0 + awaiting (step ev s) = awaiting s + length (arrivals [ev])"
            using split Inl
            by (simp add: HandlerResumes step_effects_def step_def Some returns_activation
                awaiting_def await_handler_inflight awaiting_activation)
          then show ?thesis by blast
        qed
      next
        case (Inr rest)
        then have "returns (step_effects ev s) = replicate 0 Fulfilled
          \<and> 0 + awaiting (step ev s) = awaiting s + length (arrivals [ev])"
          using split
          by (simp add: HandlerResumes step_effects_def step_def Some returns_activation
              awaiting_def await_handler_inflight awaiting_activation)
        then show ?thesis by blast
      qed
    qed
  qed
qed


lemma arrivals_append [simp]: "arrivals (evs @ evs') = arrivals evs @ arrivals evs'"
  by (induction evs rule: arrivals.induct) simp_all

lemma balance_run:
  assumes "wellformed s"
  shows "(\<exists>n. returns (run_effects evs s) = replicate n Fulfilled
          \<and> n + awaiting (run evs s) = awaiting s + length (arrivals evs))
       \<and> unhandled (run_effects evs s) = []"
  using assms
proof (induction evs arbitrary: s)
  case Nil
  then show ?case by simp
next
  case (Cons ev evs)
  have wf1: "wellformed (step ev s)"
    using Cons.prems by (rule wellformed_step)
  obtain n where n: "returns (step_effects ev s) = replicate n Fulfilled"
      "n + awaiting (step ev s) = awaiting s + length (arrivals [ev])"
    using balance_step(1)[OF Cons.prems, of ev] by blast
  obtain n' where n': "returns (run_effects evs (step ev s)) = replicate n' Fulfilled"
      "n' + awaiting (run evs (step ev s)) = awaiting (step ev s) + length (arrivals evs)"
      and u: "unhandled (run_effects evs (step ev s)) = []"
    using Cons.IH[OF wf1] by blast
  have "arrivals (ev # evs) = arrivals [ev] @ arrivals evs"
    using arrivals_append[of "[ev]" evs] by simp
  then have "returns (run_effects (ev # evs) s) = replicate (n + n') Fulfilled
          \<and> (n + n') + awaiting (run (ev # evs) s) = awaiting s + length (arrivals (ev # evs))"
    using n n' by (simp add: replicate_add)
  moreover have "unhandled (run_effects (ev # evs) s) = []"
    using u balance_step(2)[OF Cons.prems, of ev] by simp
  ultimately show ?case by blast
qed

lemma batches_append [simp]: "batches (es @ es') = batches es @ batches es'"
  by (simp add: batches_def)

lemma batches_Nil [simp]: "batches [] = []"
  by (simp add: batches_def)


lemma batches_step:
  assumes "wellformed s"
  shows "concat (batches (step_effects ev s)) @ buffered (step ev s) = buffered s @ arrivals [ev]"
proof -
  have alloc: "unackedMessageList s < nextAddr s"
    using assms by (simp add: wellformed_def)
  show ?thesis
  proof (cases ev)
    case (Message c m h)
    then show ?thesis
      using alloc
      by (cases "below m s")
         (simp_all add: step_effects_def step_Message batches_def handleMessageBuffering_below
           handleMessageBuffering_flush)
  next
    case (TimerFires t)
    show ?thesis
    proof (cases "find (\<lambda>x. timer_id x = t) (timers s)")
      case None
      then show ?thesis by (simp add: TimerFires step_effects_def step_def batches_def)
    next
      case (Some tm)
      obtain c where c: "amqpChannel s = Some c"
        using timer_fires[OF assms Some] by blast
      show ?thesis
        by (simp add: TimerFires step_effects_def Some c batches_def
            timer_fires_fields[OF assms Some c])
    qed
  next
    case (HandlerResumes i)
    then show ?thesis
      by (simp add: step_effects_def step_def batches_def buffered_def split: option.splits)
  qed
qed

lemma batches_run:
  assumes "wellformed s"
  shows "concat (batches (run_effects evs s)) @ buffered (run evs s) = buffered s @ arrivals evs"
  using assms
proof (induction evs arbitrary: s)
  case Nil
  then show ?case by simp
next
  case (Cons ev evs)
  have wf1: "wellformed (step ev s)"
    using Cons.prems by (rule wellformed_step)
  have "arrivals (ev # evs) = arrivals [ev] @ arrivals evs"
    using arrivals_append[of "[ev]" evs] by simp
  then show ?case
    using Cons.IH[OF wf1] batches_step[OF Cons.prems, of ev]
    by (metis (no_types, lifting) append.assoc batches_append concat_append run.simps(2)
        run_effects.simps(2))
qed

lemma timed_step:
  assumes "wellformed s" "timed s"
  shows "timed (step ev s)"
proof (cases ev)
  case (Message c m h)
  show ?thesis
  proof (cases "below m s")
    case True
    then show ?thesis
      using assms(2)
      by (auto simp add: Message step_Message timed_def handleMessageBuffering_below
          handleMessageBuffering_below_timers)
  next
    case False
    then show ?thesis
      using assms(1)
      by (simp add: Message step_Message timed_def handleMessageBuffering_timers_flush)
  qed
next
  case (TimerFires t)
  show ?thesis
  proof (cases "find (\<lambda>x. timer_id x = t) (timers s)")
    case None
    then show ?thesis using assms(2) by (simp add: TimerFires step_def)
  next
    case (Some tm)
    obtain c where c: "amqpChannel s = Some c"
      using timer_fires[OF assms(1) Some] by blast
    show ?thesis
      by (simp add: TimerFires timed_def timer_fires_fields[OF assms(1) Some c])
  qed
next
  case (HandlerResumes i)
  then show ?thesis
    using assms(2) by (simp add: step_def timed_def split: option.splits)
qed

lemma timed_run:
  assumes "wellformed s" "timed s"
  shows "timed (run evs s)"
  using assms
  by (induction evs arbitrary: s) (simp_all add: timed_step wellformed_step)

lemma timed_reachable: "timed (run evs (new_MessageBatchingManager cfg))"
  by (rule timed_run[OF wellformed_new]) (simp add: timed_def model_defs)

subsection \<open>The examples\<close>

lemma example_configs:
  "maxSizeBytes timed_config = Some 10" "maxTimeMs timed_config = Some 50"
  "providers_logger timed_config = False" "\<not> truthy_bool (skipNackOnFail timed_config)"
  "maxSizeBytes skipping_config = Some 10" "maxTimeMs skipping_config = Some 50"
  "providers_logger skipping_config = False" "truthy_bool (skipNackOnFail skipping_config)"
  by (simp_all add: timed_config_def skipping_config_def truthy_bool_def)

lemma example_messages:
  "byteLength (content large_message) = 8" "byteLength (content (example_message n)) = 4"
  "bound_channel first_batch = 5" "messages first_batch = 1"
  by (simp_all add: large_message_def example_message_def byteLength_def first_batch_def)

lemma example_state_timed:
  "trace (example_state timed_config) =
     [Returned Fulfilled, Returned Fulfilled,
      HandlerCalled 5 first_batch [example_message 1, example_message 2, example_message 3],
      Returned Fulfilled]"
  "buffered (example_state timed_config) = [example_message 4]"
  "bufferSize (example_state timed_config) = 4"
  "unackedMessageList (example_state timed_config) = 3"
  "heap (example_state timed_config) 1 = [example_message 1, example_message 2, example_message 3]"
  "timers (example_state timed_config) =
     [\<lparr>timer_id = 1, timer_delay = 50, timer_handler = failing_handler\<rparr>]"
  "timerHandle (example_state timed_config) = Some 1"
  "amqpChannel (example_state timed_config) = Some 5"
  "inflight (example_state timed_config) =
     [\<lparr>task_id = 0, task_batch = first_batch, task_script = Reject (Error ''late''),
       task_cont = AwaitedByHandleMessageBuffering\<rparr>]"
  "config (example_state timed_config) = timed_config"
  "nextTimer (example_state timed_config) = 2"
  "nextTask (example_state timed_config) = 1"
  by (simp_all add: model_defs example_state_def example_events_def example_message_def
      late_handler_def first_batch_def buffered_def timed_config_def)


lemma example_state_skipping:
  "trace (example_state skipping_config) =
     [Returned Fulfilled, Returned Fulfilled,
      HandlerCalled 5 first_batch [example_message 1, example_message 2, example_message 3],
      Returned Fulfilled]"
  "buffered (example_state skipping_config) = [example_message 4]"
  "bufferSize (example_state skipping_config) = 4"
  "unackedMessageList (example_state skipping_config) = 3"
  "heap (example_state skipping_config) 1 = [example_message 1, example_message 2, example_message 3]"
  "timers (example_state skipping_config) =
     [\<lparr>timer_id = 1, timer_delay = 50, timer_handler = failing_handler\<rparr>]"
  "amqpChannel (example_state skipping_config) = Some 5"
  "inflight (example_state skipping_config) =
     [\<lparr>task_id = 0, task_batch = first_batch, task_script = Reject (Error ''late''),
       task_cont = AwaitedByHandleMessageBuffering\<rparr>]"
  "config (example_state skipping_config) = skipping_config"
  by (simp_all add: model_defs example_state_def example_events_def example_message_def
      late_handler_def first_batch_def buffered_def skipping_config_def)

lemma armed_state_fields:
  "timers armed_state = [\<lparr>timer_id = 0, timer_delay = 50, timer_handler = late_handler\<rparr>]"
  "amqpChannel armed_state = Some 5"
  "buffered armed_state = [example_message 1]"
  "nextTimer armed_state = 1"
  "nextTask armed_state = 0"
  "flush_batch 5 armed_state = \<lparr>batchingOptions_maxTimeMs = Some 50,
     batchingOptions_maxSizeBytes = Some 10, totalSizeInBytes = 4, messages = 1, bound_channel = 5\<rparr>"
  "bufferSize (step (TimerFires 0) armed_state) = 0"
  "config (step (TimerFires 0) armed_state) = timed_config"
  by (simp_all add: model_defs armed_state_def example_message_def late_handler_def
      buffered_def flush_batch_def timed_config_def)

subsection \<open>The buffer after construction\<close>

text \<open>
  C10. Right after construction, with any configuration, the buffer is empty:
  \<open>getMessageCount\<close> is 0 and \<open>getBufferSize\<close> is 0, although the field is declared with
  the initial value 1; so the byte total after the first message is the byte length of
  that message.
\<close>

theorem constructor_empty:
  "getMessageCount (new_MessageBatchingManager cfg) = 0
   \<and> getBufferSize (new_MessageBatchingManager cfg) = 0
   \<and> getBufferSize (addMessage msg (new_MessageBatchingManager cfg)) = byteLength (content msg)"
  by (simp add: new_MessageBatchingManager_def resetMessages_def new_array_def
      getMessageCount_def getBufferSize_def addMessage_def Let_def)

subsection \<open>Detaching the buffer\<close>

text \<open>
  C7. \<^verbatim>\<open>finalizeMessages\<close> returns the byte total and the array of the buffer as they were
  before the call, the array still holds the messages it held, and the buffer is empty
  afterwards: count 0 and byte total 0. This holds in every state in which the array of
  the buffer is an allocated array.
\<close>

theorem finalizeMessages_detaches:
  assumes "unackedMessageList s < nextAddr s"
  shows "fst (finalizeMessages s) = (getBufferSize s, unackedMessageList s)
    \<and> heap (snd (finalizeMessages s)) (unackedMessageList s) = buffered s
    \<and> getMessageCount (snd (finalizeMessages s)) = 0
    \<and> getBufferSize (snd (finalizeMessages s)) = 0"
  using assms
  by (simp add: finalizeMessages_def resetMessages_def new_array_def Let_def getBufferSize_def
      getMessageCount_def buffered_def)


theorem finalizeMessages_detaches_witness:
  "unackedMessageList (addMessage (example_message 1) (new_MessageBatchingManager example_config))
     < nextAddr (addMessage (example_message 1) (new_MessageBatchingManager example_config))
   \<and> fst (finalizeMessages (addMessage (example_message 1)
          (new_MessageBatchingManager example_config))) = (4, 1)
   \<and> heap (snd (finalizeMessages (addMessage (example_message 1)
          (new_MessageBatchingManager example_config)))) 1 = [example_message 1]
   \<and> getMessageCount (snd (finalizeMessages (addMessage (example_message 1)
          (new_MessageBatchingManager example_config)))) = 0
   \<and> getBufferSize (snd (finalizeMessages (addMessage (example_message 1)
          (new_MessageBatchingManager example_config)))) = 0"
proof -
  let ?s = "addMessage (example_message 1) (new_MessageBatchingManager example_config)"
  have h: "unackedMessageList ?s < nextAddr ?s"
    by (simp add: model_defs)
  have e: "getBufferSize ?s = 4" "unackedMessageList ?s = 1" "buffered ?s = [example_message 1]"
    by (simp_all add: model_defs buffered_def example_message_def)
  show ?thesis
    using finalizeMessages_detaches[OF h] h e by simp
qed

subsection \<open>The byte total of the buffer\<close>

text \<open>
  C6. Messages added to the buffer of a new manager are all in the buffer, in order, the
  count is their number and the byte total is the sum of their byte lengths. The same
  holds for calls of \<^verbatim>\<open>handleMessageBuffering\<close> from any state the manager can reach, as
  long as no handler is called. The byte total is the sum of the byte lengths of the
  buffered messages after every sequence of turns, and \<^verbatim>\<open>addMessage\<close>,
  \<^verbatim>\<open>resetMessages\<close> and \<^verbatim>\<open>finalizeMessages\<close> keep or establish this.
\<close>

theorem buffer_accounting:
  "(buffered (fold addMessage ms (new_MessageBatchingManager cfg)) = ms
    \<and> getMessageCount (fold addMessage ms (new_MessageBatchingManager cfg)) = length ms
    \<and> getBufferSize (fold addMessage ms (new_MessageBatchingManager cfg)) = total_bytes ms)
   \<and> (handler_calls (trace (run (evs @ map call_event calls) (new_MessageBatchingManager cfg)))
        = handler_calls (trace (run evs (new_MessageBatchingManager cfg)))
      \<longrightarrow> buffered (run (evs @ map call_event calls) (new_MessageBatchingManager cfg))
            = buffered (run evs (new_MessageBatchingManager cfg)) @ map call_message calls
          \<and> getMessageCount (run (evs @ map call_event calls) (new_MessageBatchingManager cfg))
            = getMessageCount (run evs (new_MessageBatchingManager cfg)) + length calls
          \<and> getBufferSize (run (evs @ map call_event calls) (new_MessageBatchingManager cfg))
            = getBufferSize (run evs (new_MessageBatchingManager cfg)) + total_bytes (map call_message calls))
   \<and> getBufferSize (run evs (new_MessageBatchingManager cfg))
       = total_bytes (buffered (run evs (new_MessageBatchingManager cfg)))
   \<and> (getBufferSize s = total_bytes (buffered s)
      \<longrightarrow> getBufferSize (addMessage m s) = total_bytes (buffered (addMessage m s)))
   \<and> getBufferSize (resetMessages s) = total_bytes (buffered (resetMessages s))
   \<and> getBufferSize (snd (finalizeMessages s)) = total_bytes (buffered (snd (finalizeMessages s)))"
proof -
  let ?new = "new_MessageBatchingManager cfg"
  have new: "buffered ?new = []" "bufferSize ?new = 0"
    by (simp_all add: new_MessageBatchingManager_def resetMessages_def new_array_def Let_def
        buffered_def)
  have a: "buffered (fold addMessage ms ?new) = ms
    \<and> getMessageCount (fold addMessage ms ?new) = length ms
    \<and> getBufferSize (fold addMessage ms ?new) = total_bytes ms"
    using fold_addMessage[of ms ?new]
    by (simp add: new getMessageCount_def getBufferSize_def buffered_def[symmetric])
  have wf: "wellformed (run evs ?new)"
    by (rule wellformed_reachable)
  have b: "handler_calls (trace (run (evs @ map call_event calls) ?new))
        = handler_calls (trace (run evs ?new))
      \<longrightarrow> buffered (run (evs @ map call_event calls) ?new)
            = buffered (run evs ?new) @ map call_message calls
          \<and> getMessageCount (run (evs @ map call_event calls) ?new)
            = getMessageCount (run evs ?new) + length calls
          \<and> getBufferSize (run (evs @ map call_event calls) ?new)
            = getBufferSize (run evs ?new) + total_bytes (map call_message calls)"
    using no_flush_accumulates[OF wf, of calls]
    by (simp add: run_append getMessageCount_def getBufferSize_def buffered_def[symmetric])
  have c: "getBufferSize (run evs ?new) = total_bytes (buffered (run evs ?new))"
    using wf by (simp add: wellformed_def getBufferSize_def)
  have d: "getBufferSize s = total_bytes (buffered s)
      \<longrightarrow> getBufferSize (addMessage m s) = total_bytes (buffered (addMessage m s))"
    by (simp add: getBufferSize_def addMessage_def buffered_def Let_def)
  have e: "getBufferSize (resetMessages s) = total_bytes (buffered (resetMessages s))"
    by (simp add: getBufferSize_def resetMessages_def new_array_def buffered_def Let_def)
  have f: "getBufferSize (snd (finalizeMessages s)) = total_bytes (buffered (snd (finalizeMessages s)))"
    by (simp add: finalizeMessages_def Let_def e)
  from a b c d e f show ?thesis by blast
qed

theorem buffer_accounting_witness:
  "getBufferSize (new_MessageBatchingManager example_config)
     = total_bytes (buffered (new_MessageBatchingManager example_config))
   \<and> handler_calls (trace (run ([] @ map call_event (take 2 example_calls))
          (new_MessageBatchingManager example_config)))
       = handler_calls (trace (run [] (new_MessageBatchingManager example_config)))
   \<and> buffered (run ([] @ map call_event (take 2 example_calls))
          (new_MessageBatchingManager example_config))
       = [example_message 1, example_message 2]
   \<and> getMessageCount (run ([] @ map call_event (take 2 example_calls))
          (new_MessageBatchingManager example_config)) = 2
   \<and> getBufferSize (run ([] @ map call_event (take 2 example_calls))
          (new_MessageBatchingManager example_config)) = 8
   \<and> getBufferSize (addMessage (example_message 1) (new_MessageBatchingManager example_config))
       = total_bytes (buffered (addMessage (example_message 1)
           (new_MessageBatchingManager example_config)))"
proof -
  let ?s = "new_MessageBatchingManager example_config"
  have h1: "getBufferSize ?s = total_bytes (buffered ?s)"
    by (simp add: model_defs buffered_def)
  have h2: "handler_calls (trace (run ([] @ map call_event (take 2 example_calls)) ?s))
       = handler_calls (trace (run [] ?s))"
    by (simp add: model_defs example_calls_def example_config_def example_message_def
        acking_handler_def call_event_def)
  have e: "buffered ?s = []" "getMessageCount ?s = 0" "getBufferSize ?s = 0"
    by (simp_all add: model_defs buffered_def)
  show ?thesis
    using buffer_accounting[of "[]" example_config "[]" "take 2 example_calls" ?s
        "example_message 1"] h1 h2
    by (simp add: e) (simp add: example_calls_def example_message_def byteLength_def)
qed

subsection \<open>The size threshold\<close>

text \<open>
  C1. Let the size threshold be \<open>N\<close>, and let calls of \<^verbatim>\<open>handleMessageBuffering\<close> be made
  on an empty buffer, in any state the manager can reach, with no other turn in between,
  such that the byte total of the messages stays below \<open>N\<close> before the last call and is
  at least \<open>N\<close> with it. Then no call before the last one calls a handler, and the last
  call calls its handler, within the call and once, with the channel of that call, with
  \<^verbatim>\<open>totalSizeInBytes\<close> the byte total and with the messages of all the calls in the order
  of the calls; after it the buffer is empty, with count 0 and byte total 0.
\<close>

theorem size_threshold_flush:
  assumes threshold: "maxSizeBytes cfg = Some N"
    and reach: "s = run evs (new_MessageBatchingManager cfg)"
    and count: "getMessageCount s = 0"
    and nonempty: "calls \<noteq> []"
    and before_last: "\<forall>j<length calls. total_bytes (map call_message (take j calls)) < N"
    and with_last: "N \<le> total_bytes (map call_message calls)"
  shows "handler_calls (trace (run (map call_event (butlast calls)) s)) = handler_calls (trace s)
    \<and> handler_calls (trace (run (map call_event calls) s)) =
        handler_calls (trace s) @
          [(fst (last calls),
            \<lparr>batchingOptions_maxTimeMs = maxTimeMs cfg,
             batchingOptions_maxSizeBytes = Some N,
             totalSizeInBytes = total_bytes (map call_message calls),
             messages = unackedMessageList s,
             bound_channel = fst (last calls)\<rparr>,
            map call_message calls)]
    \<and> getMessageCount (run (map call_event calls) s) = 0
    \<and> getBufferSize (run (map call_event calls) s) = 0"
proof -
  let ?cs = "butlast calls"
  obtain c m h where cl: "last calls = (c, m, h)" by (cases "last calls")
  have calls: "calls = ?cs @ [(c, m, h)]"
    using nonempty cl by (metis append_butlast_last_id)
  have msgs: "map call_message calls = map call_message ?cs @ [m]"
    by (subst calls) simp
  have wf: "wellformed s"
    using reach by (simp add: wellformed_reachable)
  have cfg: "config s = cfg"
    using reach by (simp add: config_reachable)
  have empty: "buffered s = []"
    using count by (simp add: getMessageCount_def buffered_def)
  then have zero: "bufferSize s = 0"
    using wf by (simp add: wellformed_def)
  have "0 < length calls"
    using nonempty by simp
  then have "total_bytes (map call_message (take 0 calls)) < N"
    using before_last by blast
  then have pos: "0 < N"
    by simp
  have "length calls - 1 < length calls"
    using nonempty by (cases calls) simp_all
  then have "total_bytes (map call_message (take (length calls - 1) calls)) < N"
    using before_last by blast
  then have before: "total_bytes (map call_message ?cs) < N"
    by (simp add: butlast_conv_take)
  let ?s1 = "run (map call_event ?cs) s"
  have acc: "buffered ?s1 = map call_message ?cs"
    "trace ?s1 = trace s @ replicate (length ?cs) (Returned Fulfilled)"
    "unackedMessageList ?s1 = unackedMessageList s"
    "config ?s1 = cfg"
    using accumulate[OF wf, of N ?cs] threshold cfg zero before empty by simp_all
  have wf1: "wellformed ?s1"
    using wf by (rule wellformed_run)
  then have size1: "bufferSize ?s1 = total_bytes (map call_message ?cs)"
    by (simp add: wellformed_def acc(1))
  have alloc: "unackedMessageList ?s1 < nextAddr ?s1"
    using wf1 by (simp add: wellformed_def)
  have reached: "\<not> below m ?s1"
    using threshold pos with_last by (simp add: below_def acc(4) size1 msgs)
  have last_step: "run (map call_event calls) s = handleMessageBuffering c m h ?s1"
    by (subst calls) (simp add: run_append step_call)
  have "handler_calls (trace ?s1) = handler_calls (trace s)"
    by (simp add: acc(2))
  moreover have "handler_calls (trace (run (map call_event calls) s)) =
        handler_calls (trace s) @
          [(c, \<lparr>batchingOptions_maxTimeMs = maxTimeMs cfg,
             batchingOptions_maxSizeBytes = Some N,
             totalSizeInBytes = total_bytes (map call_message calls),
             messages = unackedMessageList s,
             bound_channel = c\<rparr>,
            map call_message calls)]"
    using threshold
    by (simp add: last_step handleMessageBuffering_flush[OF alloc reached] acc size1 msgs
        triggered_batch_def)
  moreover have "getMessageCount (run (map call_event calls) s) = 0"
    using handleMessageBuffering_flush(2)[OF alloc reached, of c h]
    by (simp add: last_step getMessageCount_def buffered_def)
  moreover have "getBufferSize (run (map call_event calls) s) = 0"
    by (simp add: last_step getBufferSize_def handleMessageBuffering_flush[OF alloc reached])
  ultimately show ?thesis
    by (simp add: cl)
qed

theorem size_threshold_flush_witness:
  "maxSizeBytes example_config = Some 10
   \<and> getMessageCount (run [] (new_MessageBatchingManager example_config)) = 0
   \<and> total_bytes (map call_message (take 2 example_calls)) = 8
   \<and> total_bytes (map call_message example_calls) = 12
   \<and> handler_calls (trace (run (map call_event (butlast example_calls))
          (new_MessageBatchingManager example_config))) = []
   \<and> handler_calls (trace (run (map call_event example_calls)
          (new_MessageBatchingManager example_config))) =
        [(5, \<lparr>batchingOptions_maxTimeMs = None, batchingOptions_maxSizeBytes = Some 10,
              totalSizeInBytes = 12, messages = 1, bound_channel = 5\<rparr>,
          [example_message 1, example_message 2, example_message 3])]
   \<and> getMessageCount (run (map call_event example_calls)
          (new_MessageBatchingManager example_config)) = 0
   \<and> getBufferSize (run (map call_event example_calls)
          (new_MessageBatchingManager example_config)) = 0"
proof -
  let ?s = "new_MessageBatchingManager example_config"
  have h1: "maxSizeBytes example_config = Some 10" by (simp add: example_config_def)
  have h4: "getMessageCount ?s = 0"
    by (simp add: model_defs)
  have h5: "example_calls \<noteq> []" by (simp add: example_calls_def)
  have h6: "\<forall>j<length example_calls. total_bytes (map call_message (take j example_calls)) < 10"
  proof (intro allI impI)
    fix j
    assume "j < length example_calls"
    then have "j = 0 \<or> j = 1 \<or> j = 2"
      by (simp add: example_calls_def) arith
    then show "total_bytes (map call_message (take j example_calls)) < 10"
      by (auto simp add: example_calls_def example_message_def byteLength_def)
  qed
  have h7: "10 \<le> total_bytes (map call_message example_calls)"
    by (simp add: example_calls_def example_message_def byteLength_def)
  have s: "?s = run [] ?s" by simp
  have u: "unackedMessageList ?s = 1" "trace ?s = []"
    by (simp_all add: model_defs)
  show ?thesis
    using size_threshold_flush[OF h1 s h4 h5 h6 h7] h1 h4
    by (simp add: u) (simp add: example_calls_def example_message_def
        byteLength_def example_config_def)
qed

subsection \<open>Failure of the handler\<close>

text \<open>
  C2. Let the manager be in a state it can reach, with \<^verbatim>\<open>skipNackOnFail\<close> false or absent.
  A handler is active in three kinds of turn: a call of \<^verbatim>\<open>handleMessageBuffering\<close> that
  reaches the size threshold, a timer that fires, and the resumption of a handler that
  was suspended. In each of them, if the activation ends in a failure, the effects of the
  turn are the handler's own calls and then, by the manager, one \<^verbatim>\<open>nack\<close> on the channel of
  the flush for each message of the batch, in the order in which the messages were added,
  with no requeue argument (and, for a call of \<^verbatim>\<open>handleMessageBuffering\<close>, its normal
  return). For a resumed handler the batch is the one its handler was called with, with
  the messages it had then.
\<close>

theorem nack_on_handler_failure:
  assumes reach: "s = run evs (new_MessageBatchingManager cfg)"
    and noskip: "\<not> truthy_bool (skipNackOnFail cfg)"
  shows "(\<not> below m s
          \<and> script_outcome (h c (triggered_batch c m s) (buffered s @ [m])) = Inl (Rejected e)
        \<longrightarrow> trace (handleMessageBuffering c m h s) =
              trace s @ [HandlerCalled c (triggered_batch c m s) (buffered s @ [m])]
              @ script_effects (providers_logger cfg) c (buffered s @ [m])
                  (h c (triggered_batch c m s) (buffered s @ [m]))
              @ nack_effects (providers_logger cfg) c (buffered s @ [m]) None
              @ [Returned Fulfilled])
    \<and> (find (\<lambda>x. timer_id x = t) (timers s) = Some tm \<and> amqpChannel s = Some c'
          \<and> script_outcome (timer_handler tm c' (flush_batch c' s) (buffered s)) = Inl (Rejected e')
        \<longrightarrow> trace (step (TimerFires t) s) =
              trace s @ [HandlerCalled c' (flush_batch c' s) (buffered s)]
              @ script_effects (providers_logger cfg) c' (buffered s)
                  (timer_handler tm c' (flush_batch c' s) (buffered s))
              @ nack_effects (providers_logger cfg) c' (buffered s) None)
    \<and> (find (\<lambda>x. task_id x = i) (inflight s) = Some tk
          \<and> script_outcome (task_script tk) = Inl (Rejected e'')
        \<longrightarrow> HandlerCalled (bound_channel (task_batch tk)) (task_batch tk)
              (heap s (messages (task_batch tk))) \<in> set (trace s)
            \<and> trace (step (HandlerResumes i) s) =
              trace s
              @ script_effects (providers_logger cfg) (bound_channel (task_batch tk))
                  (heap s (messages (task_batch tk))) (task_script tk)
              @ nack_effects (providers_logger cfg) (bound_channel (task_batch tk))
                  (heap s (messages (task_batch tk))) None
              @ return_effects (task_cont tk))"
proof -
  have call: "trace (handleMessageBuffering c m h s) =
              trace s @ [HandlerCalled c (triggered_batch c m s) (buffered s @ [m])]
              @ script_effects (providers_logger cfg) c (buffered s @ [m])
                  (h c (triggered_batch c m s) (buffered s @ [m]))
              @ nack_effects (providers_logger cfg) c (buffered s @ [m]) None
              @ [Returned Fulfilled]"
    if "\<not> below m s"
      and "script_outcome (h c (triggered_batch c m s) (buffered s @ [m])) = Inl (Rejected e)"
    using settled_in_call[OF reach, of m h c "Rejected e"] that noskip
    by (simp add: catch_effects_def step_Message)
  have timer: "trace (step (TimerFires t) s) =
              trace s @ [HandlerCalled c' (flush_batch c' s) (buffered s)]
              @ script_effects (providers_logger cfg) c' (buffered s)
                  (timer_handler tm c' (flush_batch c' s) (buffered s))
              @ nack_effects (providers_logger cfg) c' (buffered s) None"
    if found: "find (\<lambda>x. timer_id x = t) (timers s) = Some tm"
      and chan: "amqpChannel s = Some c'"
      and fails: "script_outcome (timer_handler tm c' (flush_batch c' s) (buffered s)) = Inl (Rejected e')"
  proof -
    have "wellformed s"
      using reach by (simp add: wellformed_reachable)
    then have "buffered s \<noteq> []"
      using found timer_fires[of s t tm] by blast
    then show ?thesis
      using settled_in_timer[OF reach, of t tm c' "Rejected e'"] found chan fails noskip
      by (simp add: catch_effects_def)
  qed
  have resumption: "HandlerCalled (bound_channel (task_batch tk)) (task_batch tk)
              (heap s (messages (task_batch tk))) \<in> set (trace s)
            \<and> trace (step (HandlerResumes i) s) =
              trace s
              @ script_effects (providers_logger cfg) (bound_channel (task_batch tk))
                  (heap s (messages (task_batch tk))) (task_script tk)
              @ nack_effects (providers_logger cfg) (bound_channel (task_batch tk))
                  (heap s (messages (task_batch tk))) None
              @ return_effects (task_cont tk)"
    if found: "find (\<lambda>x. task_id x = i) (inflight s) = Some tk"
      and fails: "script_outcome (task_script tk) = Inl (Rejected e'')"
    using task_batch_called[OF reach found]
      settled_in_resumption[OF reach, of i tk "Rejected e''"] found fails noskip
    by (simp add: catch_effects_def)
  from call timer resumption show ?thesis
    by blast
qed

theorem nack_on_handler_failure_witness:
  "\<not> truthy_bool (skipNackOnFail timed_config)
   \<and> \<not> below large_message (example_state timed_config)
   \<and> script_outcome (failing_handler 5 (triggered_batch 5 large_message (example_state timed_config))
        (buffered (example_state timed_config) @ [large_message])) = Inl (Rejected (Error ''boom''))
   \<and> trace (handleMessageBuffering 5 large_message failing_handler (example_state timed_config)) =
       trace (example_state timed_config)
       @ [HandlerCalled 5 \<lparr>batchingOptions_maxTimeMs = Some 50, batchingOptions_maxSizeBytes = Some 10,
            totalSizeInBytes = 12, messages = 3, bound_channel = 5\<rparr> [example_message 4, large_message],
          ChannelNack 5 (example_message 4) None, ChannelNack 5 large_message None,
          Returned Fulfilled]
   \<and> find (\<lambda>x. timer_id x = 1) (timers (example_state timed_config)) =
       Some \<lparr>timer_id = 1, timer_delay = 50, timer_handler = failing_handler\<rparr>
   \<and> amqpChannel (example_state timed_config) = Some 5
   \<and> trace (step (TimerFires 1) (example_state timed_config)) =
       trace (example_state timed_config)
       @ [HandlerCalled 5 \<lparr>batchingOptions_maxTimeMs = Some 50, batchingOptions_maxSizeBytes = Some 10,
            totalSizeInBytes = 4, messages = 3, bound_channel = 5\<rparr> [example_message 4],
          ChannelNack 5 (example_message 4) None]
   \<and> find (\<lambda>x. task_id x = 0) (inflight (example_state timed_config)) =
       Some \<lparr>task_id = 0, task_batch = first_batch, task_script = Reject (Error ''late''),
         task_cont = AwaitedByHandleMessageBuffering\<rparr>
   \<and> HandlerCalled 5 first_batch [example_message 1, example_message 2, example_message 3]
       \<in> set (trace (example_state timed_config))
   \<and> trace (step (HandlerResumes 0) (example_state timed_config)) =
       trace (example_state timed_config)
       @ [ChannelNack 5 (example_message 1) None, ChannelNack 5 (example_message 2) None,
          ChannelNack 5 (example_message 3) None, Returned Fulfilled]"
proof -
  let ?s = "example_state timed_config"
  have noskip: "\<not> truthy_bool (skipNackOnFail timed_config)"
    by (simp add: example_configs)
  have reach: "?s = run example_events (new_MessageBatchingManager timed_config)"
    by (simp add: example_state_def)
  have h1: "\<not> below large_message ?s"
    by (simp add: below_def example_state_timed example_configs example_messages)
  have h2: "script_outcome (failing_handler 5 (triggered_batch 5 large_message ?s)
        (buffered ?s @ [large_message])) = Inl (Rejected (Error ''boom''))"
    by (simp add: failing_handler_def)
  have h3: "find (\<lambda>x. timer_id x = 1) (timers ?s) =
       Some \<lparr>timer_id = 1, timer_delay = 50, timer_handler = failing_handler\<rparr>"
    by (simp add: example_state_timed)
  have h4: "amqpChannel ?s = Some 5"
    by (simp add: example_state_timed)
  have h5: "find (\<lambda>x. task_id x = 0) (inflight ?s) =
       Some \<lparr>task_id = 0, task_batch = first_batch, task_script = Reject (Error ''late''),
         task_cont = AwaitedByHandleMessageBuffering\<rparr>"
    by (simp add: example_state_timed)
  show ?thesis
    using nack_on_handler_failure[OF reach noskip, where m = large_message and h = failing_handler
        and c = 5 and e = "Error ''boom''" and t = 1
        and tm = "\<lparr>timer_id = 1, timer_delay = 50, timer_handler = failing_handler\<rparr>"
        and c' = 5 and e' = "Error ''boom''" and i = 0
        and tk = "\<lparr>task_id = 0, task_batch = first_batch, task_script = Reject (Error ''late''),
         task_cont = AwaitedByHandleMessageBuffering\<rparr>" and e'' = "Error ''late''"]
      noskip h1 h2 h3 h4 h5
    by (simp add: failing_handler_def)
       (simp add: example_state_timed triggered_batch_def flush_batch_def nack_effects_def
         log_effects_def return_effects_def example_configs example_messages)
qed

text \<open>
  C9. With \<^verbatim>\<open>skipNackOnFail\<close> true, in each of the three kinds of turn, if the activation of
  the handler ends in a failure the effects of the turn are the handler's own calls (and
  the normal return of the call): the manager calls neither \<^verbatim>\<open>nack\<close> nor \<^verbatim>\<open>ack\<close>.
\<close>

theorem no_nack_when_skipped:
  assumes reach: "s = run evs (new_MessageBatchingManager cfg)"
    and skip: "truthy_bool (skipNackOnFail cfg)"
  shows "(\<not> below m s
          \<and> script_outcome (h c (triggered_batch c m s) (buffered s @ [m])) = Inl (Rejected e)
        \<longrightarrow> trace (handleMessageBuffering c m h s) =
              trace s @ [HandlerCalled c (triggered_batch c m s) (buffered s @ [m])]
              @ script_effects (providers_logger cfg) c (buffered s @ [m])
                  (h c (triggered_batch c m s) (buffered s @ [m]))
              @ [Returned Fulfilled])
    \<and> (find (\<lambda>x. timer_id x = t) (timers s) = Some tm \<and> amqpChannel s = Some c'
          \<and> script_outcome (timer_handler tm c' (flush_batch c' s) (buffered s)) = Inl (Rejected e')
        \<longrightarrow> trace (step (TimerFires t) s) =
              trace s @ [HandlerCalled c' (flush_batch c' s) (buffered s)]
              @ script_effects (providers_logger cfg) c' (buffered s)
                  (timer_handler tm c' (flush_batch c' s) (buffered s)))
    \<and> (find (\<lambda>x. task_id x = i) (inflight s) = Some tk
          \<and> script_outcome (task_script tk) = Inl (Rejected e'')
        \<longrightarrow> trace (step (HandlerResumes i) s) =
              trace s
              @ script_effects (providers_logger cfg) (bound_channel (task_batch tk))
                  (heap s (messages (task_batch tk))) (task_script tk)
              @ return_effects (task_cont tk))"
  using settled_in_call[OF reach, of m h c "Rejected e"]
    settled_in_timer[OF reach, of t tm c' "Rejected e'"]
    settled_in_resumption[OF reach, of i tk "Rejected e''"] skip
  by (simp add: catch_effects_def step_Message)

theorem no_nack_when_skipped_witness:
  "truthy_bool (skipNackOnFail skipping_config)
   \<and> \<not> below large_message (example_state skipping_config)
   \<and> script_outcome (failing_handler 5 (triggered_batch 5 large_message (example_state skipping_config))
        (buffered (example_state skipping_config) @ [large_message])) = Inl (Rejected (Error ''boom''))
   \<and> trace (handleMessageBuffering 5 large_message failing_handler (example_state skipping_config)) =
       trace (example_state skipping_config)
       @ [HandlerCalled 5 \<lparr>batchingOptions_maxTimeMs = Some 50, batchingOptions_maxSizeBytes = Some 10,
            totalSizeInBytes = 12, messages = 3, bound_channel = 5\<rparr> [example_message 4, large_message],
          Returned Fulfilled]
   \<and> find (\<lambda>x. timer_id x = 1) (timers (example_state skipping_config)) =
       Some \<lparr>timer_id = 1, timer_delay = 50, timer_handler = failing_handler\<rparr>
   \<and> amqpChannel (example_state skipping_config) = Some 5
   \<and> trace (step (TimerFires 1) (example_state skipping_config)) =
       trace (example_state skipping_config)
       @ [HandlerCalled 5 \<lparr>batchingOptions_maxTimeMs = Some 50, batchingOptions_maxSizeBytes = Some 10,
            totalSizeInBytes = 4, messages = 3, bound_channel = 5\<rparr> [example_message 4]]
   \<and> find (\<lambda>x. task_id x = 0) (inflight (example_state skipping_config)) =
       Some \<lparr>task_id = 0, task_batch = first_batch, task_script = Reject (Error ''late''),
         task_cont = AwaitedByHandleMessageBuffering\<rparr>
   \<and> trace (step (HandlerResumes 0) (example_state skipping_config)) =
       trace (example_state skipping_config) @ [Returned Fulfilled]"
proof -
  let ?s = "example_state skipping_config"
  have skip: "truthy_bool (skipNackOnFail skipping_config)"
    by (simp add: example_configs)
  have reach: "?s = run example_events (new_MessageBatchingManager skipping_config)"
    by (simp add: example_state_def)
  have h1: "\<not> below large_message ?s"
    by (simp add: below_def example_state_skipping example_configs example_messages)
  have h2: "script_outcome (failing_handler 5 (triggered_batch 5 large_message ?s)
        (buffered ?s @ [large_message])) = Inl (Rejected (Error ''boom''))"
    by (simp add: failing_handler_def)
  have h3: "find (\<lambda>x. timer_id x = 1) (timers ?s) =
       Some \<lparr>timer_id = 1, timer_delay = 50, timer_handler = failing_handler\<rparr>"
    by (simp add: example_state_skipping)
  have h4: "amqpChannel ?s = Some 5"
    by (simp add: example_state_skipping)
  have h5: "find (\<lambda>x. task_id x = 0) (inflight ?s) =
       Some \<lparr>task_id = 0, task_batch = first_batch, task_script = Reject (Error ''late''),
         task_cont = AwaitedByHandleMessageBuffering\<rparr>"
    by (simp add: example_state_skipping)
  show ?thesis
    using no_nack_when_skipped[OF reach skip, where m = large_message and h = failing_handler
        and c = 5 and e = "Error ''boom''" and t = 1
        and tm = "\<lparr>timer_id = 1, timer_delay = 50, timer_handler = failing_handler\<rparr>"
        and c' = 5 and e' = "Error ''boom''" and i = 0
        and tk = "\<lparr>task_id = 0, task_batch = first_batch, task_script = Reject (Error ''late''),
         task_cont = AwaitedByHandleMessageBuffering\<rparr>" and e'' = "Error ''late''"]
      skip h1 h2 h3 h4 h5
    by (simp add: failing_handler_def)
       (simp add: example_state_skipping triggered_batch_def flush_batch_def
         return_effects_def example_configs example_messages)
qed

text \<open>
  C3. In every sequence of turns, whatever the handlers do, no promise of
  \<^verbatim>\<open>handleMessageBuffering\<close> is rejected and no rejection is left unhandled; every call
  has returned normally, except those whose handler is still suspended.
\<close>

theorem handler_failure_absorbed:
  "Returned (Rejected e) \<notin> set (trace (run evs (new_MessageBatchingManager cfg)))
   \<and> UnhandledRejection e \<notin> set (trace (run evs (new_MessageBatchingManager cfg)))
   \<and> length (returns (trace (run evs (new_MessageBatchingManager cfg))))
       + awaiting (run evs (new_MessageBatchingManager cfg))
     = length (arrivals evs)"
proof -
  let ?new = "new_MessageBatchingManager cfg"
  have tr: "trace (run evs ?new) = run_effects evs ?new"
    using run_trace[OF wellformed_new, of evs cfg] by (simp add: new_fields)
  have aw: "awaiting ?new = 0"
    by (simp add: awaiting_def new_fields)
  obtain n where n: "returns (run_effects evs ?new) = replicate n Fulfilled"
      "n + awaiting (run evs ?new) = awaiting ?new + length (arrivals evs)"
      and u: "unhandled (run_effects evs ?new) = []"
    using balance_run[OF wellformed_new, of evs cfg] by blast
  have "Rejected e \<notin> set (returns (trace (run evs ?new)))"
    by (simp add: tr n)
  then have "Returned (Rejected e) \<notin> set (trace (run evs ?new))"
    by (simp add: returns_mem)
  moreover have "e \<notin> set (unhandled (trace (run evs ?new)))"
    by (simp add: tr u)
  then have "UnhandledRejection e \<notin> set (trace (run evs ?new))"
    by (simp add: unhandled_mem)
  moreover have "length (returns (trace (run evs ?new))) + awaiting (run evs ?new)
      = length (arrivals evs)"
    using n aw by (simp add: tr)
  ultimately show ?thesis by blast
qed


theorem handler_failure_absorbed_witness:
  "Returned (Rejected (Error ''late''))
     \<notin> set (trace (run (example_events @ [HandlerResumes 0]) (new_MessageBatchingManager timed_config)))
   \<and> UnhandledRejection (Error ''late'')
     \<notin> set (trace (run (example_events @ [HandlerResumes 0]) (new_MessageBatchingManager timed_config)))
   \<and> returns (trace (run (example_events @ [HandlerResumes 0]) (new_MessageBatchingManager timed_config)))
       = [Fulfilled, Fulfilled, Fulfilled, Fulfilled]
   \<and> length (returns (trace (run (example_events @ [HandlerResumes 0])
         (new_MessageBatchingManager timed_config))))
       + awaiting (run (example_events @ [HandlerResumes 0]) (new_MessageBatchingManager timed_config))
     = length (arrivals (example_events @ [HandlerResumes 0]))"
proof -
  have "returns (trace (run (example_events @ [HandlerResumes 0]) (new_MessageBatchingManager timed_config)))
       = [Fulfilled, Fulfilled, Fulfilled, Fulfilled]"
    by (simp add: model_defs example_events_def example_message_def late_handler_def
        timed_config_def)
  then show ?thesis
    using handler_failure_absorbed[of "Error ''late''" "example_events @ [HandlerResumes 0]"
        timed_config]
    by simp
qed

subsection \<open>Batches and cycles\<close>

text \<open>
  C5. Let a handler have been called with the batch \<open>b\<close>, on the channel \<open>c\<close> and with the
  messages \<open>ms\<close>. After any further turns (new messages, flushes of later cycles, timers,
  resumptions), \<^verbatim>\<open>ackAll\<close> of \<open>b\<close> acknowledges exactly the messages \<open>ms\<close>, in order, on the
  channel \<open>c\<close>, and \<^verbatim>\<open>nackAll\<close> rejects exactly them, with the requeue argument it is
  given; they change nothing else.
\<close>

theorem batch_closures_bound:
  assumes "s = run evs (new_MessageBatchingManager cfg)"
    and "HandlerCalled c b ms \<in> set (trace s)"
  shows "ackAll b (run evs' s) =
           (run evs' s)\<lparr>trace := trace (run evs' s)
              @ log_effects (providers_logger cfg) ''MessageBatchingManager.ackMessageList: Start''
              @ map (ChannelAck c) ms
              @ log_effects (providers_logger cfg) ''MessageBatchingManager.ackMessageList: End''\<rparr>
       \<and> nackAll b requeue (run evs' s) =
           (run evs' s)\<lparr>trace := trace (run evs' s)
              @ log_effects (providers_logger cfg) ''MessageBatchingManager.nackMessageList: Start''
              @ map (\<lambda>x. ChannelNack c x requeue) ms
              @ log_effects (providers_logger cfg) ''MessageBatchingManager.nackMessageList: End''\<rparr>"
proof -
  let ?s' = "run evs' s"
  have s': "?s' = run (evs @ evs') (new_MessageBatchingManager cfg)"
    by (simp add: assms(1) run_append)
  have wf: "wellformed s" using assms(1) by (simp add: wellformed_reachable)
  have "trace ?s' = trace s @ run_effects evs' s"
    using wf by (rule run_trace)
  then have "HandlerCalled c b ms \<in> set (trace ?s')"
    using assms(2) by simp
  then have mem: "(c, b, ms) \<in> set (handler_calls (trace ?s'))"
    by (simp add: handler_calls_mem)
  have "kept ?s'" by (simp only: s' kept_reachable)
  from kept_batch[OF this mem]
  have b: "bound_channel b = c" "heap ?s' (messages b) = ms" by simp_all
  have lg: "logger ?s' = providers_logger cfg"
    by (simp only: s' logger_reachable)
  show ?thesis
    by (simp add: ackAll_def nackAll_def ackMessageList_append_trace nackMessageList_append_trace
        b lg append_trace_def ack_effects_def nack_effects_def)
qed


theorem batch_closures_bound_witness:
  "HandlerCalled 5 first_batch [example_message 1, example_message 2, example_message 3]
     \<in> set (trace (example_state timed_config))
   \<and> batches (trace (run [Message 6 large_message failing_handler] (example_state timed_config))) =
       [[example_message 1, example_message 2, example_message 3], [example_message 4, large_message]]
   \<and> ackAll first_batch (run [Message 6 large_message failing_handler] (example_state timed_config)) =
       (run [Message 6 large_message failing_handler] (example_state timed_config))
         \<lparr>trace := trace (run [Message 6 large_message failing_handler] (example_state timed_config))
            @ [ChannelAck 5 (example_message 1), ChannelAck 5 (example_message 2),
               ChannelAck 5 (example_message 3)]\<rparr>
   \<and> nackAll first_batch (Some False)
         (run [Message 6 large_message failing_handler] (example_state timed_config)) =
       (run [Message 6 large_message failing_handler] (example_state timed_config))
         \<lparr>trace := trace (run [Message 6 large_message failing_handler] (example_state timed_config))
            @ [ChannelNack 5 (example_message 1) (Some False), ChannelNack 5 (example_message 2) (Some False),
               ChannelNack 5 (example_message 3) (Some False)]\<rparr>"
proof -
  let ?s = "example_state timed_config"
  have reach: "?s = run example_events (new_MessageBatchingManager timed_config)"
    by (simp add: example_state_def)
  have called: "HandlerCalled 5 first_batch [example_message 1, example_message 2, example_message 3]
     \<in> set (trace ?s)"
    by (simp add: example_state_timed)
  have later: "batches (trace (run [Message 6 large_message failing_handler] ?s)) =
       [[example_message 1, example_message 2, example_message 3], [example_message 4, large_message]]"
    by (simp add: model_defs example_state_def example_events_def example_message_def
      late_handler_def failing_handler_def large_message_def first_batch_def timed_config_def
      batches_def)
  show ?thesis
    using batch_closures_bound[OF reach called, of "[Message 6 large_message failing_handler]"
        "Some False"] called later
    by (simp add: log_effects_def example_configs)
qed

text \<open>
  C4. In every state the manager can reach, the batches that the handlers were given,
  in the order of the flushes, followed by the buffer, are exactly the messages
  delivered, in the order of delivery, and no batch is empty: a cycle is given to a
  handler once, and no flush happens on a cycle that was flushed already. At most one
  timer is pending, the one of \<^verbatim>\<open>timerHandle\<close>. A call that reaches the size threshold
  leaves no timer pending, and a call below the threshold with a timer armed leaves the
  timer as it is.
\<close>

theorem one_flush_per_cycle:
  assumes "s = run evs (new_MessageBatchingManager cfg)"
  shows "concat (batches (trace s)) @ buffered s = arrivals evs
    \<and> [] \<notin> set (batches (trace s))
    \<and> map timer_id (timers s) = (case timerHandle s of None \<Rightarrow> [] | Some t \<Rightarrow> [t])
    \<and> (\<not> below m s \<longrightarrow>
         timers (handleMessageBuffering c m h s) = []
         \<and> timerHandle (handleMessageBuffering c m h s) = None)
    \<and> (below m' s \<and> timerHandle s \<noteq> None \<longrightarrow>
         timers (handleMessageBuffering c' m' h' s) = timers s
         \<and> timerHandle (handleMessageBuffering c' m' h' s) = timerHandle s)"
proof -
  let ?new = "new_MessageBatchingManager cfg"
  have wf: "wellformed s"
    using assms by (simp add: wellformed_reachable)
  have alloc: "unackedMessageList s < nextAddr s"
    using wf by (simp add: wellformed_def)
  have tr: "trace (run evs ?new) = run_effects evs ?new"
    using run_trace[OF wellformed_new, of evs cfg] by (simp add: new_fields)
  have "concat (batches (trace s)) @ buffered s = arrivals evs"
    using batches_run[OF wellformed_new, of evs cfg]
    by (simp add: assms tr new_fields)
  moreover have "[] \<notin> set (batches (trace s))"
  proof
    assume "[] \<in> set (batches (trace s))"
    then obtain c b where "(c, b, []) \<in> set (handler_calls (trace s))"
      by (auto simp add: batches_def)
    then show False
      using kept_batch[of s c b "[]"] kept_reachable[of evs cfg] assms by simp
  qed
  moreover have "map timer_id (timers s) = (case timerHandle s of None \<Rightarrow> [] | Some t \<Rightarrow> [t])"
    using wf by (simp add: wellformed_def)
  moreover have "\<not> below m s \<longrightarrow>
         timers (handleMessageBuffering c m h s) = []
         \<and> timerHandle (handleMessageBuffering c m h s) = None"
    using handleMessageBuffering_timers_flush[OF wf] handleMessageBuffering_flush(4)[OF alloc]
    by blast
  moreover have "below m' s \<and> timerHandle s \<noteq> None \<longrightarrow>
         timers (handleMessageBuffering c' m' h' s) = timers s
         \<and> timerHandle (handleMessageBuffering c' m' h' s) = timerHandle s"
    using handleMessageBuffering_armed by blast
  ultimately show ?thesis by blast
qed


theorem one_flush_per_cycle_witness:
  "concat (batches (trace (example_state timed_config))) @ buffered (example_state timed_config) =
     [example_message 1, example_message 2, example_message 3, example_message 4]
   \<and> \<not> below large_message (example_state timed_config)
   \<and> timers (handleMessageBuffering 5 large_message failing_handler (example_state timed_config)) = []
   \<and> timerHandle (handleMessageBuffering 5 large_message failing_handler (example_state timed_config)) = None
   \<and> below (example_message 5) (example_state timed_config)
   \<and> timerHandle (example_state timed_config) = Some 1
   \<and> timers (handleMessageBuffering 5 (example_message 5) failing_handler (example_state timed_config)) =
       [\<lparr>timer_id = 1, timer_delay = 50, timer_handler = failing_handler\<rparr>]
   \<and> timerHandle (handleMessageBuffering 5 (example_message 5) failing_handler (example_state timed_config)) =
       Some 1"
proof -
  let ?s = "example_state timed_config"
  have reach: "?s = run example_events (new_MessageBatchingManager timed_config)"
    by (simp add: example_state_def)
  have h1: "\<not> below large_message ?s"
    by (simp add: below_def example_state_timed example_configs example_messages)
  have h2: "below (example_message 5) ?s"
    by (simp add: below_def example_state_timed example_configs example_messages)
  have h3: "timerHandle ?s = Some 1"
    by (simp add: example_state_timed)
  show ?thesis
    using one_flush_per_cycle[OF reach, where m = large_message and c = 5 and h = failing_handler
        and m' = "example_message 5" and c' = 5 and h' = failing_handler] h1 h2 h3
    by (simp add: example_state_timed example_events_def)
qed

subsection \<open>The timer that fires\<close>

text \<open>
  C8. When a pending timer fires, in a state the manager can reach, its callback starts
  the flush and clears \<^verbatim>\<open>timerHandle\<close> within the same turn: at the end of the turn the
  flag is cleared and no timer is pending, also when the handler of the flush has
  suspended and is in flight. A message that arrives next and stays below the size
  threshold arms a timer of its own for its cycle, with its handler, and the handler in
  flight stays in flight.
\<close>

theorem timer_flag_cleared_on_fire:
  assumes "s = run evs (new_MessageBatchingManager cfg)"
    and "find (\<lambda>x. timer_id x = t) (timers s) = Some tm"
  shows "timerHandle (step (TimerFires t) s) = None
    \<and> timers (step (TimerFires t) s) = []
    \<and> (amqpChannel s = Some c
        \<and> script_outcome (timer_handler tm c (flush_batch c s) (buffered s)) = Inr rest
       \<longrightarrow> \<lparr>task_id = nextTask s, task_batch = flush_batch c s, task_script = rest,
             task_cont = NotAwaited\<rparr> \<in> set (inflight (step (TimerFires t) s)))
    \<and> (below m (step (TimerFires t) s)
       \<longrightarrow> timerHandle (handleMessageBuffering c' m h (step (TimerFires t) s)) = Some (nextTimer s)
          \<and> map timer_id (timers (handleMessageBuffering c' m h (step (TimerFires t) s))) = [nextTimer s]
          \<and> map timer_handler (timers (handleMessageBuffering c' m h (step (TimerFires t) s))) = [h]
          \<and> inflight (handleMessageBuffering c' m h (step (TimerFires t) s))
              = inflight (step (TimerFires t) s))"
proof -
  let ?s' = "step (TimerFires t) s"
  have wf: "wellformed s"
    using assms(1) by (simp add: wellformed_reachable)
  obtain c0 where c0: "amqpChannel s = Some c0" and tms: "timers s = [tm]"
    using timer_fires[OF wf assms(2)] by blast
  note f = timer_fires_fields[OF wf assms(2) c0]
  have "timed s"
    using assms(1) by (simp add: timed_reachable)
  then have mt: "truthy_num (maxTimeMs (config s))"
    using tms by (simp add: timed_def)
  have cfg': "config ?s' = config s"
    using config_logger_step[OF wf] by simp
  have nt: "nextTimer ?s' = nextTimer s"
    using sendBufferedMessages_fields(10)[of "clearTimeout t s" c0 "timer_handler tm" NotAwaited]
      timer_fires[OF wf assms(2)] wf c0
    by (fastforce simp add: wellformed_def)
  have "amqpChannel s = Some c
        \<and> script_outcome (timer_handler tm c (flush_batch c s) (buffered s)) = Inr rest
       \<longrightarrow> \<lparr>task_id = nextTask s, task_batch = flush_batch c s, task_script = rest,
             task_cont = NotAwaited\<rparr> \<in> set (inflight ?s')"
    using c0 by (auto simp add: f activation_tasks_def)
  moreover have "below m ?s'
       \<longrightarrow> timerHandle (handleMessageBuffering c' m h ?s') = Some (nextTimer s)
          \<and> map timer_id (timers (handleMessageBuffering c' m h ?s')) = [nextTimer s]
          \<and> map timer_handler (timers (handleMessageBuffering c' m h ?s')) = [h]
          \<and> inflight (handleMessageBuffering c' m h ?s') = inflight ?s'"
    using mt
    by (simp add: handleMessageBuffering_below_timers handleMessageBuffering_below cfg' nt f)
  ultimately show ?thesis
    by (simp add: f)
qed


theorem timer_flag_cleared_on_fire_witness:
  "find (\<lambda>x. timer_id x = 0) (timers armed_state) =
     Some \<lparr>timer_id = 0, timer_delay = 50, timer_handler = late_handler\<rparr>
   \<and> timerHandle (step (TimerFires 0) armed_state) = None
   \<and> timers (step (TimerFires 0) armed_state) = []
   \<and> amqpChannel armed_state = Some 5
   \<and> script_outcome (late_handler 5 (flush_batch 5 armed_state) (buffered armed_state)) =
       Inr (Reject (Error ''late''))
   \<and> \<lparr>task_id = 0,
        task_batch = \<lparr>batchingOptions_maxTimeMs = Some 50, batchingOptions_maxSizeBytes = Some 10,
          totalSizeInBytes = 4, messages = 1, bound_channel = 5\<rparr>,
        task_script = Reject (Error ''late''), task_cont = NotAwaited\<rparr>
       \<in> set (inflight (step (TimerFires 0) armed_state))
   \<and> below (example_message 2) (step (TimerFires 0) armed_state)
   \<and> timerHandle (handleMessageBuffering 6 (example_message 2) failing_handler
        (step (TimerFires 0) armed_state)) = Some 1
   \<and> map timer_id (timers (handleMessageBuffering 6 (example_message 2) failing_handler
        (step (TimerFires 0) armed_state))) = [1]
   \<and> map timer_handler (timers (handleMessageBuffering 6 (example_message 2) failing_handler
        (step (TimerFires 0) armed_state))) = [failing_handler]
   \<and> inflight (handleMessageBuffering 6 (example_message 2) failing_handler
        (step (TimerFires 0) armed_state)) = inflight (step (TimerFires 0) armed_state)"
proof -
  have reach: "armed_state = run [Message 5 (example_message 1) late_handler]
      (new_MessageBatchingManager timed_config)"
    by (simp add: armed_state_def)
  have h1: "find (\<lambda>x. timer_id x = 0) (timers armed_state) =
     Some \<lparr>timer_id = 0, timer_delay = 50, timer_handler = late_handler\<rparr>"
    by (simp add: armed_state_fields)
  have h2: "amqpChannel armed_state = Some 5"
    by (simp add: armed_state_fields)
  have h3: "script_outcome (late_handler 5 (flush_batch 5 armed_state) (buffered armed_state)) =
       Inr (Reject (Error ''late''))"
    by (simp add: late_handler_def)
  have h4: "below (example_message 2) (step (TimerFires 0) armed_state)"
    by (simp add: below_def armed_state_fields example_configs example_messages)
  show ?thesis
    using timer_flag_cleared_on_fire[OF reach h1, where c = 5 and rest = "Reject (Error ''late'')"
        and m = "example_message 2" and c' = 6 and h = failing_handler] h1 h2 h3 h4
    by (simp add: armed_state_fields)
qed

end
